theory Spec2Isabelle
  imports Complex_Main "HOL-Library.Word" "HOL-Library.Log_Nat"
begin

section \<open>The element tree consumed by the parser\<close>

text \<open>
  The parser of \<^verbatim>\<open>bmap.h\<close> reads a tinyxml2 element through four calls:
  \<^verbatim>\<open>GetText()\<close>, \<^verbatim>\<open>Attribute(name)\<close>, \<^verbatim>\<open>FirstChildElement(name)\<close> and
  \<^verbatim>\<open>NextSiblingElement()\<close>. An element is its name, its text (absent when
  \<^verbatim>\<open>GetText()\<close> returns a null pointer), its attributes and its child elements in
  document order.
\<close>

datatype XMLElement =
  XMLElement (Name: string) (GetText: "string option")
    (Attributes: "(string \<times> string) list") (Children: "XMLElement list")

definition Attribute :: "XMLElement \<Rightarrow> string \<Rightarrow> string option" where
  "Attribute elem name = map_of (Attributes elem) name"

definition FirstChildElement :: "XMLElement \<Rightarrow> string \<Rightarrow> XMLElement option" where
  "FirstChildElement elem name = find (\<lambda>c. Name c = name) (Children elem)"

text \<open>
  \<^verbatim>\<open>size_t\<close> is the 64-bit unsigned integer of the platforms the program targets.
\<close>

type_synonym size_t = "64 word"

text \<open>
  What can go wrong. \<open>RuntimeError\<close> is a thrown \<^verbatim>\<open>std::runtime_error\<close> with its
  message. The others are not exceptions of the program: \<open>NullString\<close> is the
  construction of a \<^verbatim>\<open>std::string\<close> from a null \<^verbatim>\<open>const char *\<close>,
  \<open>NullDereference\<close> a member call through a null element pointer,
  \<open>IndeterminateValue\<close> the read of a \<^verbatim>\<open>size_t\<close> that was never written,
  \<open>DivisionByZero\<close> an integer division by zero and \<open>UnrepresentableValue\<close> the
  conversion of a floating-point value to an integer type that cannot hold it; the
  language leaves all five undefined.
\<close>

datatype error =
  RuntimeError string
  | NullString
  | NullDereference
  | IndeterminateValue
  | DivisionByZero
  | UnrepresentableValue

definition std_string :: "string option \<Rightarrow> error + string" where
  "std_string p = (case p of None \<Rightarrow> Inl NullString | Some s \<Rightarrow> Inr s)"

section \<open>Reading a number from a string stream\<close>

text \<open>
  \<^verbatim>\<open>std::stringstream strm(in); size_t out; strm >> out;\<close> in the classic locale:
  leading white space is skipped; when nothing is left the extraction does not start
  and \<^verbatim>\<open>out\<close> is not written; otherwise an optional sign and the longest run of
  decimal digits are read. No digit stores 0 and sets the fail bit, a value beyond
  \<^verbatim>\<open>size_t\<close> stores the greatest value and sets the fail bit, and a minus sign
  negates the value modulo \<open>2 ^ 64\<close>. The result is the value stored (if any) and the
  fail bit.
\<close>

definition isspace :: "char \<Rightarrow> bool" where
  "isspace c = (c = CHR '' '' \<or> ((9::int) \<le> of_char c \<and> (of_char c :: int) \<le> 13))"

definition isdigit :: "char \<Rightarrow> bool" where
  "isdigit c = ((48::int) \<le> of_char c \<and> (of_char c :: int) \<le> 57)"

definition digit_value :: "char \<Rightarrow> int" where
  "digit_value c = of_char c - 48"

definition decimal_value :: "string \<Rightarrow> int" where
  "decimal_value ds = foldl (\<lambda>acc c. 10 * acc + digit_value c) 0 ds"

definition extract_size_t :: "string \<Rightarrow> size_t option \<times> bool" where
  "extract_size_t s =
     (let s1 = dropWhile isspace s in
      if s1 = [] then (None, True)
      else
        let negative = (hd s1 = CHR ''-'');
            s2 = (if hd s1 = CHR ''-'' \<or> hd s1 = CHR ''+'' then tl s1 else s1);
            ds = takeWhile isdigit s2
        in if ds = [] then (Some 0, True)
           else if 2 ^ 64 \<le> decimal_value ds then (Some (- 1), True)
           else if negative then (Some (- word_of_int (decimal_value ds)), False)
           else (Some (word_of_int (decimal_value ds)), False))"

section \<open>Range\<close>

record Range =
  offset :: size_t
  blockCount :: size_t
  checksum :: string

text \<open>
  The lambda \<^verbatim>\<open>to_sizeT\<close> of \<^verbatim>\<open>Range::parse\<close> returns \<^verbatim>\<open>out\<close> without looking at
  the stream state.
\<close>

definition to_sizeT :: "string \<Rightarrow> error + size_t" where
  "to_sizeT s = (case fst (extract_size_t s) of
                   None \<Rightarrow> Inl IndeterminateValue
                 | Some out \<Rightarrow> Inr out)"

text \<open>
  \<^verbatim>\<open>std::views::split\<close>: the pieces of a string between the occurrences of a
  delimiter; an empty string has no piece, and a string with \<open>n\<close> delimiters has
  \<open>n + 1\<close> pieces.
\<close>

fun split_pieces :: "char \<Rightarrow> string \<Rightarrow> string \<Rightarrow> string list" where
  "split_pieces d cur [] = [rev cur]"
| "split_pieces d cur (c # cs) =
     (if c = d then rev cur # split_pieces d [] cs else split_pieces d (c # cur) cs)"

definition split :: "char \<Rightarrow> string \<Rightarrow> string list" where
  "split d s = (if s = [] then [] else split_pieces d [] s)"

definition Range_parse :: "XMLElement option \<Rightarrow> error + Range" where
  "Range_parse e =
     (case e of
        None \<Rightarrow> Inl (RuntimeError ''Cannot initialize Range from NULL!'')
      | Some elem \<Rightarrow>
         (case std_string (GetText elem) of
            Inl err \<Rightarrow> Inl err
          | Inr stringVal \<Rightarrow>
             (case (if CHR ''-'' \<notin> set stringVal then
                      (case to_sizeT stringVal of
                         Inl err \<Rightarrow> Inl err
                       | Inr start \<Rightarrow> Inr (start, 1))
                    else
                      (case split CHR ''-'' stringVal of
                         a # b # _ \<Rightarrow>
                           (case to_sizeT a of
                              Inl err \<Rightarrow> Inl err
                            | Inr start \<Rightarrow>
                               (case to_sizeT b of
                                  Inl err \<Rightarrow> Inl err
                                | Inr en \<Rightarrow> Inr (start, en - start + 1)))
                       | _ \<Rightarrow> Inl NullDereference)) of
                Inl err \<Rightarrow> Inl err
              | Inr (start, len) \<Rightarrow>
                 (case std_string (Attribute elem ''chksum'') of
                    Inl err \<Rightarrow> Inl err
                  | Inr chk \<Rightarrow>
                      Inr \<lparr>offset = start, blockCount = len, checksum = chk\<rparr>))))"

section \<open>BmapFile\<close>

text \<open>
  The field \<^verbatim>\<open>checksum\<close> of \<^verbatim>\<open>BmapFile\<close> is \<open>fileChecksum\<close> here, since
  \<open>Range\<close> has a field of the same name.
\<close>

record BmapFile =
  imageSize :: size_t
  blockSize :: size_t
  blocksCount :: size_t
  mappedBlocksCount :: size_t
  checksumType :: string
  fileChecksum :: string
  blockMap :: "Range list"

text \<open>\<^verbatim>\<open>typeid(size_t).name()\<close>, as the Itanium ABI spells \<^verbatim>\<open>unsigned long\<close>.\<close>

definition typeid_name_size_t :: string where
  "typeid_name_size_t = ''m''"

text \<open>\<^verbatim>\<open>xml::value<size_t>\<close>: the arithmetic overload, which checks the stream.\<close>

definition value_size_t :: "XMLElement option \<Rightarrow> error + size_t" where
  "value_size_t e =
     (case e of
        None \<Rightarrow> Inl (RuntimeError ''Element is null'')
      | Some elem \<Rightarrow>
         (case std_string (GetText elem) of
            Inl err \<Rightarrow> Inl err
          | Inr txt \<Rightarrow>
             (if snd (extract_size_t txt) then
                Inl (RuntimeError (''Failed to convert element to type '' @ typeid_name_size_t))
              else (case fst (extract_size_t txt) of
                      None \<Rightarrow> Inl IndeterminateValue
                    | Some res \<Rightarrow> Inr res))))"

text \<open>\<^verbatim>\<open>xml::value<std::string>\<close>: no null check on the element.\<close>

definition value_string :: "XMLElement option \<Rightarrow> error + string" where
  "value_string e =
     (case e of
        None \<Rightarrow> Inl NullDereference
      | Some elem \<Rightarrow> std_string (GetText elem))"

text \<open>The loop of \<^verbatim>\<open>xml::valueFromSimpleXPath\<close> over the segments of the path.\<close>

fun walk_path :: "XMLElement option \<Rightarrow> string list \<Rightarrow> error + XMLElement option" where
  "walk_path elem [] = Inr elem"
| "walk_path elem (subpath # rest) =
     (case elem of
        None \<Rightarrow> Inl NullDereference
      | Some el \<Rightarrow>
         (case FirstChildElement el subpath of
            None \<Rightarrow>
              Inl (RuntimeError
                     (''Unable to evaluate XPath. No child found with name '' @ subpath))
          | Some child \<Rightarrow> walk_path (Some child) rest))"

definition valueFromSimpleXPath_size_t :: "XMLElement option \<Rightarrow> string \<Rightarrow> error + size_t" where
  "valueFromSimpleXPath_size_t rootElem xPath =
     (case walk_path rootElem (split CHR ''/'' xPath) of
        Inl err \<Rightarrow> Inl err
      | Inr elem \<Rightarrow> value_size_t elem)"

definition valueFromSimpleXPath_string :: "XMLElement option \<Rightarrow> string \<Rightarrow> error + string" where
  "valueFromSimpleXPath_string rootElem xPath =
     (case walk_path rootElem (split CHR ''/'' xPath) of
        Inl err \<Rightarrow> Inl err
      | Inr elem \<Rightarrow> value_string elem)"

text \<open>
  The loop that fills \<^verbatim>\<open>blockMap\<close>: it starts at the first child named
  \<^verbatim>\<open>Range\<close> and then follows \<^verbatim>\<open>NextSiblingElement()\<close>, which has no name filter,
  so every later sibling element is parsed as a range too.
\<close>

fun parse_ranges :: "XMLElement list \<Rightarrow> error + Range list" where
  "parse_ranges [] = Inr []"
| "parse_ranges (rangeElem # siblings) =
     (case Range_parse (Some rangeElem) of
        Inl err \<Rightarrow> Inl err
      | Inr r \<Rightarrow>
         (case parse_ranges siblings of
            Inl err \<Rightarrow> Inl err
          | Inr rs \<Rightarrow> Inr (r # rs)))"

definition read_blockMap :: "XMLElement \<Rightarrow> error + Range list" where
  "read_blockMap rootElem =
     (case FirstChildElement rootElem ''BlockMap'' of
        None \<Rightarrow> Inr []
      | Some blockMapElem \<Rightarrow>
          parse_ranges (dropWhile (\<lambda>c. Name c \<noteq> ''Range'') (Children blockMapElem)))"

text \<open>
  The body of \<^verbatim>\<open>BmapFile::from_xml_data\<close> after the document is parsed (in the first
  version of the header this was \<^verbatim>\<open>BmapFile::parse(root)\<close>). The fields are read in
  the order of the source and the first failure ends the construction: \<open>and_then m f\<close>
  passes the value of \<open>m\<close> to \<open>f\<close>, or stops with the failure of \<open>m\<close>.
\<close>

definition and_then :: "error + 'a \<Rightarrow> ('a \<Rightarrow> error + 'b) \<Rightarrow> error + 'b" where
  "and_then m f = (case m of Inl err \<Rightarrow> Inl err | Inr v \<Rightarrow> f v)"

definition from_root :: "XMLElement option \<Rightarrow> error + BmapFile" where
  "from_root rootElem =
     and_then (valueFromSimpleXPath_size_t rootElem ''ImageSize'') (\<lambda>imgSize.
     and_then (valueFromSimpleXPath_size_t rootElem ''BlockSize'') (\<lambda>blkSize.
     and_then (valueFromSimpleXPath_size_t rootElem ''BlocksCount'') (\<lambda>blksCount.
     and_then (valueFromSimpleXPath_size_t rootElem ''MappedBlocksCount'') (\<lambda>mapped.
     and_then (valueFromSimpleXPath_string rootElem ''ChecksumType'') (\<lambda>chcksmType.
     and_then (valueFromSimpleXPath_string rootElem ''BmapFileChecksum'') (\<lambda>chcksum.
     and_then (case rootElem of None \<Rightarrow> Inl NullDereference | Some r \<Rightarrow> read_blockMap r) (\<lambda>ranges.
       Inr \<lparr>imageSize = imgSize, blockSize = blkSize, blocksCount = blksCount,
            mappedBlocksCount = mapped, checksumType = chcksmType,
            fileChecksum = chcksum, blockMap = ranges\<rparr>)))))))"

text \<open>
  \<^verbatim>\<open>BmapFile::from_xml_data\<close>. The tokenizer of tinyxml2 is not part of the
  program; \<open>xml_parse\<close> stands for \<^verbatim>\<open>doc.Parse\<close> followed by
  \<^verbatim>\<open>doc.RootElement()\<close>, which is null when the bytes hold no element.
\<close>

definition from_xml_data :: "(string \<Rightarrow> XMLElement option) \<Rightarrow> string \<Rightarrow> error + BmapFile" where
  "from_xml_data xml_parse bytes =
     (if bytes = [] then Inl (RuntimeError ''bmap file is empty!'')
      else from_root (xml_parse bytes))"

section \<open>The copy loop\<close>

record Progress =
  mappedBlocks :: size_t
  blocksWritten :: size_t

text \<open>
  What \<^verbatim>\<open>bmap::copy\<close> does to the outside world, in the order it does it. Offsets,
  positions and counts are in bytes, as the calls take them.
\<close>

datatype event =
  DeviceSeek int \<comment> \<open>\<^verbatim>\<open>std::fseek(blockDevice, off, SEEK_CUR)\<close>\<close>
  | SourceSeek int \<comment> \<open>\<^verbatim>\<open>wicFile.seekg(off, std::ios_base::cur)\<close>\<close>
  | SourceRead int int int \<comment> \<open>\<^verbatim>\<open>wicFile.read\<close>: position, bytes asked for, bytes delivered\<close>
  | DeviceWrite int int \<comment> \<open>\<^verbatim>\<open>std::fwrite\<close>: position, bytes\<close>
  | ProgressCallback Progress \<comment> \<open>\<^verbatim>\<open>callback(progress)\<close>\<close>
  | DeviceFsync \<comment> \<open>\<^verbatim>\<open>fsync(blockFd)\<close>\<close>

text \<open>
  The two streams and the progress counter. File positions are signed, as
  \<^verbatim>\<open>off_t\<close> is. The image file has \<open>wicSize\<close> bytes;
  \<open>wicFail\<close> is the fail bit of the input stream. The device is a byte store
  without an end, on which every write succeeds.
\<close>

record copy_state =
  wicSize :: int
  wicPos :: int
  wicFail :: bool
  devPos :: int
  progress :: Progress
  trace :: "event list"

definition MAX_BUF_SIZE :: size_t where
  "MAX_BUF_SIZE = 4 * 1024 * 1024 * 2"

definition LONG_MAX :: int where
  "LONG_MAX = 2 ^ 63 - 1"

text \<open>
  \<^verbatim>\<open>std::fseek\<close> takes a \<^verbatim>\<open>long\<close>: the \<^verbatim>\<open>size_t\<close> argument is read as a signed
  number. A target before the start of the file or beyond \<^verbatim>\<open>LONG_MAX\<close> makes the
  call fail and leaves the position where it was; the program ignores the result.
\<close>

definition fseek_cur :: "size_t \<Rightarrow> copy_state \<Rightarrow> copy_state" where
  "fseek_cur seekOffs st =
     (let target = devPos st + sint seekOffs;
          st1 = st\<lparr>trace := trace st @ [DeviceSeek (sint seekOffs)]\<rparr>
      in if 0 \<le> target \<and> target \<le> LONG_MAX then st1\<lparr>devPos := target\<rparr> else st1)"

text \<open>
  \<^verbatim>\<open>seekg\<close> does nothing on a stream whose fail bit is set, and sets the fail bit when
  the target cannot be reached.
\<close>

definition seekg_cur :: "size_t \<Rightarrow> copy_state \<Rightarrow> copy_state" where
  "seekg_cur seekOffs st =
     (let target = wicPos st + sint seekOffs;
          st1 = st\<lparr>trace := trace st @ [SourceSeek (sint seekOffs)]\<rparr>
      in if wicFail st then st1
         else if 0 \<le> target \<and> target \<le> LONG_MAX then st1\<lparr>wicPos := target\<rparr>
         else st1\<lparr>wicFail := True\<rparr>)"

text \<open>
  \<^verbatim>\<open>read\<close> delivers what is left of the file, at most the bytes asked for, and sets
  the fail bit when that is less; on a failed stream it delivers nothing.
\<close>

definition wicFile_read :: "int \<Rightarrow> copy_state \<Rightarrow> copy_state" where
  "wicFile_read byteCount st =
     (let delivered = (if wicFail st then 0 else max 0 (min byteCount (wicSize st - wicPos st)))
      in st\<lparr>wicPos := wicPos st + delivered,
            wicFail := (wicFail st \<or> delivered < byteCount),
            trace := trace st @ [SourceRead (wicPos st) byteCount delivered]\<rparr>)"

definition fwrite :: "int \<Rightarrow> copy_state \<Rightarrow> copy_state" where
  "fwrite byteCount st =
     st\<lparr>devPos := devPos st + byteCount,
         trace := trace st @ [DeviceWrite (devPos st) byteCount]\<rparr>"

definition fsync :: "copy_state \<Rightarrow> copy_state" where
  "fsync st = st\<lparr>trace := trace st @ [DeviceFsync]\<rparr>"

text \<open>One pass of the body of the inner loop (lines 302 to 313), for \<open>readBlocks\<close> blocks.\<close>

definition copy_chunk :: "size_t \<Rightarrow> bool \<Rightarrow> size_t \<Rightarrow> copy_state \<Rightarrow> copy_state" where
  "copy_chunk blkSize callback readBlocks st =
     (let byteCount = readBlocks * blkSize;
          st1 = fwrite (uint byteCount) (wicFile_read (uint byteCount) st);
          st2 = st1\<lparr>progress :=
                  (progress st1)\<lparr>blocksWritten := blocksWritten (progress st1) + readBlocks\<rparr>\<rparr>
      in if callback then st2\<lparr>trace := trace st2 @ [ProgressCallback (progress st2)]\<rparr>
         else st2)"

text \<open>
  The inner loop \<^verbatim>\<open>for (auto blockCount = range.blockCount; blockCount > 0;)\<close>. It
  has no bound of its own, so its model is a partial function: \<open>None\<close> is the loop
  that never ends. \<open>blocksLeft\<close> is the loop variable \<^verbatim>\<open>blockCount\<close>.
\<close>

partial_function (option) copy_chunks ::
  "size_t \<Rightarrow> size_t \<Rightarrow> bool \<Rightarrow> size_t \<Rightarrow> copy_state \<Rightarrow> copy_state option" where
  "copy_chunks blkSize bufferMaxBlocks callback blocksLeft st =
     (if 0 < blocksLeft then
        copy_chunks blkSize bufferMaxBlocks callback
          (blocksLeft - (if bufferMaxBlocks < blocksLeft then bufferMaxBlocks else blocksLeft))
          (copy_chunk blkSize callback
             (if bufferMaxBlocks < blocksLeft then bufferMaxBlocks else blocksLeft) st)
      else Some st)"

declare copy_chunks.simps [code]

text \<open>The seek in front of a range (lines 294 to 299).\<close>

definition seek_to_range :: "Range \<Rightarrow> copy_state \<Rightarrow> copy_state" where
  "seek_to_range rng st =
     (if blocksWritten (progress st) < offset rng then
        seekg_cur (offset rng - blocksWritten (progress st))
          (fseek_cur (offset rng - blocksWritten (progress st)) st)
      else st)"

text \<open>The outer loop over \<^verbatim>\<open>bmapFile.blockMap\<close>.\<close>

fun copy_ranges ::
  "size_t \<Rightarrow> size_t \<Rightarrow> bool \<Rightarrow> Range list \<Rightarrow> copy_state \<Rightarrow> copy_state option" where
  "copy_ranges blkSize bufferMaxBlocks callback [] st = Some st"
| "copy_ranges blkSize bufferMaxBlocks callback (rng # rest) st =
     (case copy_chunks blkSize bufferMaxBlocks callback (blockCount rng)
             (seek_to_range rng st) of
        None \<Rightarrow> None
      | Some st1 \<Rightarrow> copy_ranges blkSize bufferMaxBlocks callback rest (fsync st1))"

text \<open>
  The streams right after they are opened: both at byte 0, nothing done yet.
  \<open>opened\<close> says whether the image file could be opened for reading.
\<close>

definition opened_streams :: "int \<Rightarrow> bool \<Rightarrow> BmapFile \<Rightarrow> copy_state" where
  "opened_streams fileSize opened bmapFile =
     \<lparr>wicSize = fileSize, wicPos = 0, wicFail = (\<not> opened), devPos = 0,
      progress = \<lparr>mappedBlocks = mappedBlocksCount bmapFile, blocksWritten = 0\<rparr>,
      trace = []\<rparr>"

text \<open>
  \<^verbatim>\<open>bmap::copy\<close> from the point where the descriptor is parsed and both files are
  open (lines 274 to 325): the buffer of \<open>min (blockSize * 1024 * 2) MAX_BUF_SIZE\<close>
  bytes, the number of blocks that fit in it, and the loop over the ranges.
  \<open>callback\<close> says whether a progress callback was supplied. The lines under
  \<^verbatim>\<open>BMAP_COPY_DEBUG_PRINT\<close>, which write to \<^verbatim>\<open>std::cout\<close>, are left out.
\<close>

definition copy_blocks :: "BmapFile \<Rightarrow> bool \<Rightarrow> copy_state \<Rightarrow> (error + copy_state) option" where
  "copy_blocks bmapFile callback st =
     (if blockSize bmapFile = 0 then Some (Inl DivisionByZero)
      else map_option Inr
             (copy_ranges (blockSize bmapFile)
                (min (blockSize bmapFile * 1024 * 2) MAX_BUF_SIZE div blockSize bmapFile)
                callback (blockMap bmapFile) st))"

section \<open>Progress::percent\<close>

text \<open>
  \<^verbatim>\<open>uint8_t(100.0f / (float)mappedBlocks * (float)blocksWritten)\<close> is evaluated in
  \<^verbatim>\<open>float\<close>, the IEEE 754 single format, in the default rounding mode: each of
  the two conversions, the division and the product is the exact result rounded to
  the nearest value with a 24-bit significand, ties to the even significand. Values
  are kept as exact rationals here. \<open>binade x\<close> is the exponent \<open>e\<close> with
  \<open>2 powi e \<le> x < 2 powi (e + 1)\<close>; below \<open>2 powi (- 126)\<close> the spacing of the
  format stays that of the lowest binade. The values that \<open>percent\<close> rounds stay
  far below \<open>2 powi 128\<close>, where the format ends.
\<close>

definition binade :: "rat \<Rightarrow> int" where
  "binade x =
     (let e0 = bitlen (fst (quotient_of x)) - bitlen (snd (quotient_of x))
      in if 2 powi e0 \<le> x then e0 else e0 - 1)"

definition round_half_even :: "rat \<Rightarrow> int" where
  "round_half_even y =
     (if y - of_int \<lfloor>y\<rfloor> < 1 / 2 then \<lfloor>y\<rfloor>
      else if 1 / 2 < y - of_int \<lfloor>y\<rfloor> then \<lfloor>y\<rfloor> + 1
      else if even \<lfloor>y\<rfloor> then \<lfloor>y\<rfloor> else \<lfloor>y\<rfloor> + 1)"

definition ulp_exponent :: "rat \<Rightarrow> int" where
  "ulp_exponent x = max (binade x) (- 126) - 23"

definition to_float :: "rat \<Rightarrow> rat" where
  "to_float x =
     (if x = 0 then 0
      else of_int (round_half_even (x / 2 powi ulp_exponent x)) * 2 powi ulp_exponent x)"

definition float_of_size_t :: "size_t \<Rightarrow> rat" where
  "float_of_size_t n = to_float (of_int (uint n))"

text \<open>
  The conversion to \<^verbatim>\<open>uint8_t\<close> drops the fraction; it is undefined when the
  result is not below 256. With \<open>mappedBlocks = 0\<close> the quotient is infinite and the
  product infinite or not a number, which no integer type holds.
\<close>

definition percent :: "Progress \<Rightarrow> error + 8 word" where
  "percent p =
     (if mappedBlocks p = 0 then Inl UnrepresentableValue
      else
        let v = to_float (to_float (100 / float_of_size_t (mappedBlocks p))
                            * float_of_size_t (blocksWritten p))
        in if \<lfloor>v\<rfloor> < 256 then Inr (word_of_int \<lfloor>v\<rfloor>) else Inl UnrepresentableValue)"

text \<open>The arguments of the progress callback, in the order of the calls.\<close>

fun reported :: "event list \<Rightarrow> Progress list" where
  "reported [] = []"
| "reported (ProgressCallback p # events) = p # reported events"
| "reported (e # events) = reported events"

text \<open>
  The reports made so far are in order: each carries the total \<open>m\<close>, the
  counters do not go down from one report to the next, and none is ahead of the
  counter of the state.
\<close>

definition reports_ordered :: "size_t \<Rightarrow> copy_state \<Rightarrow> bool" where
  "reports_ordered m st =
     (mappedBlocks (progress st) = m
      \<and> sorted (map (\<lambda>p. uint (blocksWritten p)) (reported (trace st)))
      \<and> list_all (\<lambda>p. mappedBlocks p = m
                       \<and> uint (blocksWritten p) \<le> uint (blocksWritten (progress st)))
            (reported (trace st)))"

section \<open>Numerals\<close>

text \<open>
  A numeral is a non-empty string of decimal digits whose value fits \<^verbatim>\<open>size_t\<close>.
\<close>

definition is_numeral :: "string \<Rightarrow> bool" where
  "is_numeral s = (s \<noteq> [] \<and> list_all isdigit s \<and> decimal_value s < 2 ^ 64)"

section \<open>Properties of the parser\<close>

lemma isdigit_not_space: "isdigit c \<Longrightarrow> \<not> isspace c"
  by (auto simp: isdigit_def isspace_def)

lemma isdigit_not_sign: "isdigit c \<Longrightarrow> c \<noteq> CHR ''-'' \<and> c \<noteq> CHR ''+''"
  by (auto simp: isdigit_def)

lemma digits_no_hyphen: "list_all isdigit s \<Longrightarrow> CHR ''-'' \<notin> set s"
  using isdigit_not_sign by (auto simp: list_all_iff)

lemma digits_foldl_nonneg:
  "list_all isdigit ds \<Longrightarrow> 0 \<le> acc \<Longrightarrow> 0 \<le> foldl (\<lambda>acc c. 10 * acc + digit_value c) acc ds"
proof (induction ds arbitrary: acc)
  case Nil
  then show ?case by simp
next
  case (Cons d ds)
  from Cons.prems have "0 \<le> digit_value d"
    by (simp add: isdigit_def digit_value_def)
  with Cons.prems have "0 \<le> 10 * acc + digit_value d"
    by simp
  with Cons show ?case by simp
qed

lemma decimal_value_nonneg: "list_all isdigit ds \<Longrightarrow> 0 \<le> decimal_value ds"
  by (simp add: decimal_value_def digits_foldl_nonneg)

lemma uint_numeral_value:
  assumes "is_numeral s"
  shows "uint (word_of_int (decimal_value s) :: size_t) = decimal_value s"
proof -
  from assms have "0 \<le> decimal_value s" "decimal_value s < 2 ^ 64"
    by (simp_all add: is_numeral_def decimal_value_nonneg)
  then show ?thesis
    by (simp add: uint_word_of_int take_bit_eq_mod)
qed

lemma uint_count:
  "uint (word_of_int y - word_of_int x + 1 :: size_t) = (y - x + 1) mod 2 ^ 64"
proof -
  have "(word_of_int y - word_of_int x + 1 :: size_t) = word_of_int (y - x + 1)"
    by simp
  then show ?thesis
    by (simp only: uint_word_of_int take_bit_eq_mod) simp
qed

lemma extract_numeral:
  assumes "is_numeral s"
  shows "extract_size_t s = (Some (word_of_int (decimal_value s)), False)"
proof -
  from assms obtain c cs where s: "s = c # cs" and c: "isdigit c"
    and digits: "list_all isdigit s" and small: "decimal_value s < 2 ^ 64"
    by (cases s) (auto simp: is_numeral_def)
  have skip: "dropWhile isspace s = s"
    using c s by (simp add: isdigit_not_space)
  have run: "takeWhile isdigit s = s"
    using digits by (simp add: list_all_iff)
  have sign: "hd s \<noteq> CHR ''-''" "hd s \<noteq> CHR ''+''"
    using c s isdigit_not_sign by auto
  show ?thesis
    unfolding extract_size_t_def Let_def skip using sign run small s by simp
qed

lemma to_sizeT_numeral: "is_numeral s \<Longrightarrow> to_sizeT s = Inr (word_of_int (decimal_value s))"
  by (simp add: to_sizeT_def extract_numeral)

lemma split_pieces_last: "d \<notin> set s \<Longrightarrow> split_pieces d cur s = [rev cur @ s]"
  by (induction s arbitrary: cur) auto

lemma split_pieces_first:
  "d \<notin> set a \<Longrightarrow> split_pieces d cur (a @ d # b) = (rev cur @ a) # split_pieces d [] b"
  by (induction a arbitrary: cur) auto

lemma split_pair: "d \<notin> set a \<Longrightarrow> d \<notin> set b \<Longrightarrow> split d (a @ d # b) = [a, b]"
  using split_pieces_first [of d a "[]" b] split_pieces_last [of d b "[]"]
  by (simp add: split_def)

lemma Range_parse_single:
  assumes "is_numeral a" "GetText elem = Some a" "Attribute elem ''chksum'' = Some c"
  shows "Range_parse (Some elem) =
           Inr \<lparr>offset = word_of_int (decimal_value a), blockCount = 1, checksum = c\<rparr>"
  using assms digits_no_hyphen [of a]
  by (simp add: Range_parse_def std_string_def to_sizeT_numeral is_numeral_def)

lemma Range_parse_pair:
  assumes "is_numeral a" "is_numeral b" "GetText elem = Some (a @ ''-'' @ b)"
    "Attribute elem ''chksum'' = Some c"
  shows "Range_parse (Some elem) =
           Inr \<lparr>offset = word_of_int (decimal_value a),
                blockCount = word_of_int (decimal_value b) - word_of_int (decimal_value a) + 1,
                checksum = c\<rparr>"
proof -
  have "split CHR ''-'' (a @ CHR ''-'' # b) = [a, b]"
    using assms(1,2) by (intro split_pair digits_no_hyphen) (simp_all add: is_numeral_def)
  then show ?thesis using assms
    by (simp add: Range_parse_def std_string_def to_sizeT_numeral)
qed

lemma is_numeral_examples:
  "is_numeral ''100''" "is_numeral ''199''" "is_numeral ''5''"
  "decimal_value ''100'' = 100" "decimal_value ''199'' = 199" "decimal_value ''5'' = 5"
  by (simp_all add: is_numeral_def isdigit_def decimal_value_def digit_value_def)

text \<open>
  C2. Let the element carry a \<^verbatim>\<open>chksum\<close> attribute. A text body that is one numeral
  \<open>a\<close> parses to the one-block range that starts at block \<open>a\<close>. A text body
  \<open>a-b\<close> of two numerals with \<open>a \<le> b\<close> parses to the range with offset \<open>a\<close> and
  with \<open>b - a + 1\<close> blocks, computed in \<^verbatim>\<open>size_t\<close>; the count is the number
  \<open>b - a + 1\<close> itself whenever that fits 64 bits (it does not for the one body
  \<open>0-18446744073709551615\<close>). In particular \<open>100\<close> parses to offset 100 and 1 block,
  \<open>100-199\<close> to offset 100 and 100 blocks, and \<open>5-5\<close> to offset 5 and 1 block.
\<close>

theorem Range_parse_decodes_numerals:
  assumes "Attribute elem ''chksum'' = Some c"
  shows "(is_numeral a \<and> GetText elem = Some a \<longrightarrow>
            (\<exists>r. Range_parse (Some elem) = Inr r \<and> uint (offset r) = decimal_value a
               \<and> blockCount r = 1 \<and> checksum r = c))
       \<and> (is_numeral a \<and> is_numeral b \<and> decimal_value a \<le> decimal_value b
            \<and> GetText elem = Some (a @ ''-'' @ b) \<longrightarrow>
            (\<exists>r. Range_parse (Some elem) = Inr r \<and> uint (offset r) = decimal_value a
               \<and> blockCount r = word_of_int (decimal_value b) - word_of_int (decimal_value a) + 1
               \<and> (decimal_value b - decimal_value a + 1 < 2 ^ 64 \<longrightarrow>
                    uint (blockCount r) = decimal_value b - decimal_value a + 1)
               \<and> checksum r = c))
       \<and> (GetText elem = Some ''100'' \<longrightarrow>
            Range_parse (Some elem) = Inr \<lparr>offset = 100, blockCount = 1, checksum = c\<rparr>)
       \<and> (GetText elem = Some ''100-199'' \<longrightarrow>
            Range_parse (Some elem) = Inr \<lparr>offset = 100, blockCount = 100, checksum = c\<rparr>)
       \<and> (GetText elem = Some ''5-5'' \<longrightarrow>
            Range_parse (Some elem) = Inr \<lparr>offset = 5, blockCount = 1, checksum = c\<rparr>)"
proof (intro conjI impI)
  assume h: "is_numeral a \<and> GetText elem = Some a"
  then have "Range_parse (Some elem) =
      Inr \<lparr>offset = word_of_int (decimal_value a), blockCount = 1, checksum = c\<rparr>"
    using assms by (intro Range_parse_single) simp_all
  moreover have "uint (word_of_int (decimal_value a) :: size_t) = decimal_value a"
    using h by (intro uint_numeral_value) simp
  ultimately show "\<exists>r. Range_parse (Some elem) = Inr r \<and> uint (offset r) = decimal_value a
               \<and> blockCount r = 1 \<and> checksum r = c"
    by simp
next
  assume h: "is_numeral a \<and> is_numeral b \<and> decimal_value a \<le> decimal_value b
            \<and> GetText elem = Some (a @ ''-'' @ b)"
  then have parse: "Range_parse (Some elem) =
      Inr \<lparr>offset = word_of_int (decimal_value a),
           blockCount = word_of_int (decimal_value b) - word_of_int (decimal_value a) + 1,
           checksum = c\<rparr>"
    using assms by (intro Range_parse_pair) simp_all
  have off: "uint (word_of_int (decimal_value a) :: size_t) = decimal_value a"
    using h by (intro uint_numeral_value) simp
  have count: "decimal_value b - decimal_value a + 1 < 2 ^ 64 \<longrightarrow>
      uint (word_of_int (decimal_value b) - word_of_int (decimal_value a) + 1 :: size_t)
        = decimal_value b - decimal_value a + 1"
    using h by (simp only: uint_count) simp
  show "\<exists>r. Range_parse (Some elem) = Inr r \<and> uint (offset r) = decimal_value a
               \<and> blockCount r = word_of_int (decimal_value b) - word_of_int (decimal_value a) + 1
               \<and> (decimal_value b - decimal_value a + 1 < 2 ^ 64 \<longrightarrow>
                    uint (blockCount r) = decimal_value b - decimal_value a + 1)
               \<and> checksum r = c"
    unfolding parse using off count by simp
next
  assume "GetText elem = Some ''100''"
  then show "Range_parse (Some elem) = Inr \<lparr>offset = 100, blockCount = 1, checksum = c\<rparr>"
    using Range_parse_single [of "''100''" elem c] assms by (simp add: is_numeral_examples)
next
  assume "GetText elem = Some ''100-199''"
  then show "Range_parse (Some elem) = Inr \<lparr>offset = 100, blockCount = 100, checksum = c\<rparr>"
    using Range_parse_pair [of "''100''" "''199''" elem c] assms
    by (simp add: is_numeral_examples)
next
  assume "GetText elem = Some ''5-5''"
  then show "Range_parse (Some elem) = Inr \<lparr>offset = 5, blockCount = 1, checksum = c\<rparr>"
    using Range_parse_pair [of "''5''" "''5''" elem c] assms
    by (simp add: is_numeral_examples)
qed

theorem Range_parse_decodes_numerals_witness:
  "Range_parse (Some (XMLElement ''Range'' (Some ''100-199'') [(''chksum'', ''9f'')] []))
     = Inr \<lparr>offset = 100, blockCount = 100, checksum = ''9f''\<rparr>
   \<and> Range_parse (Some (XMLElement ''Range'' (Some ''100'') [(''chksum'', ''9f'')] []))
     = Inr \<lparr>offset = 100, blockCount = 1, checksum = ''9f''\<rparr>"
proof -
  have a: "Attribute (XMLElement ''Range'' (Some ''100-199'') [(''chksum'', ''9f'')] []) ''chksum''
             = Some ''9f''"
    by (simp add: Attribute_def)
  have b: "Attribute (XMLElement ''Range'' (Some ''100'') [(''chksum'', ''9f'')] []) ''chksum''
             = Some ''9f''"
    by (simp add: Attribute_def)
  show ?thesis
    using Range_parse_decodes_numerals [OF a] Range_parse_decodes_numerals [OF b] by simp
qed

text \<open>
  C3, at the input it fails on. The range text \<open>abc\<close> holds no digit; the extraction
  stores 0, the lambda \<^verbatim>\<open>to_sizeT\<close> does not look at the fail bit, and
  \<^verbatim>\<open>Range::parse\<close> returns the range of block 0. The descriptor is built with that
  range in its block map.
\<close>

theorem Range_parse_accepts_non_numeric:
  "Range_parse (Some (XMLElement ''Range'' (Some ''abc'') [(''chksum'', ''9f'')] []))
     = Inr \<lparr>offset = 0, blockCount = 1, checksum = ''9f''\<rparr>
   \<and> from_xml_data
       (\<lambda>bytes. Some (XMLElement ''bmap'' None []
          [XMLElement ''ImageSize'' (Some ''8192'') [] [],
           XMLElement ''BlockSize'' (Some ''4096'') [] [],
           XMLElement ''BlocksCount'' (Some ''2'') [] [],
           XMLElement ''MappedBlocksCount'' (Some ''1'') [] [],
           XMLElement ''ChecksumType'' (Some ''sha256'') [] [],
           XMLElement ''BmapFileChecksum'' (Some ''00'') [] [],
           XMLElement ''BlockMap'' None []
             [XMLElement ''Range'' (Some ''abc'') [(''chksum'', ''9f'')] []]]))
       ''<bmap/>''
     = Inr \<lparr>imageSize = 8192, blockSize = 4096, blocksCount = 2, mappedBlocksCount = 1,
            checksumType = ''sha256'', fileChecksum = ''00'',
            blockMap = [\<lparr>offset = 0, blockCount = 1, checksum = ''9f''\<rparr>]\<rparr>"
  by code_simp

text \<open>
  C4, at the input it fails on. A range element with the text \<open>100\<close> and no
  \<^verbatim>\<open>chksum\<close> attribute: \<^verbatim>\<open>Attribute\<close> returns a null pointer, and the
  \<^verbatim>\<open>std::string\<close> built from it is not an empty string; no range is returned.
\<close>

theorem Range_parse_missing_chksum:
  "Range_parse (Some (XMLElement ''Range'' (Some ''100'') [] [])) = Inl NullString"
  by code_simp

text \<open>
  C9 as it is written fails: the wrapped count is not always enormous. The body
  \<open>5-4\<close> gives \<open>4 - 5 + 1 = 0\<close> blocks, fewer than any well-formed range, and the
  body \<open>18446744073709551615-0\<close> gives 2 blocks.
\<close>

theorem Range_parse_inverted_pair_small_count:
  "Range_parse (Some (XMLElement ''Range'' (Some ''5-4'') [(''chksum'', ''9f'')] []))
     = Inr \<lparr>offset = 5, blockCount = 0, checksum = ''9f''\<rparr>
   \<and> Range_parse (Some (XMLElement ''Range'' (Some ''18446744073709551615-0'')
                        [(''chksum'', ''9f'')] []))
     = Inr \<lparr>offset = 18446744073709551615, blockCount = 2, checksum = ''9f''\<rparr>"
  by code_simp

text \<open>
  C9, amended. Let the element carry a \<^verbatim>\<open>chksum\<close> attribute and the text \<open>a-b\<close>
  of two numerals with \<open>b < a\<close>. Then \<^verbatim>\<open>Range::parse\<close> does not fail: it returns
  a range whose offset is \<open>a\<close> and whose block count is \<open>(b - a + 1) mod 2 ^ 64\<close>.
  That count is 0 when \<open>b = a - 1\<close> and \<open>2 ^ 64 - (a - b - 1)\<close> otherwise.
\<close>

theorem Range_parse_inverted_pair_wraps:
  assumes "is_numeral a" "is_numeral b" "decimal_value b < decimal_value a"
    and "GetText elem = Some (a @ ''-'' @ b)"
    and "Attribute elem ''chksum'' = Some c"
  shows "\<exists>r. Range_parse (Some elem) = Inr r
           \<and> uint (offset r) = decimal_value a
           \<and> uint (blockCount r) = (decimal_value b - decimal_value a + 1) mod 2 ^ 64
           \<and> (decimal_value b + 1 = decimal_value a \<longrightarrow> blockCount r = 0)
           \<and> (decimal_value b + 1 < decimal_value a \<longrightarrow>
                uint (blockCount r) = 2 ^ 64 - (decimal_value a - decimal_value b - 1))
           \<and> checksum r = c"
proof -
  have parse: "Range_parse (Some elem) =
      Inr \<lparr>offset = word_of_int (decimal_value a),
           blockCount = word_of_int (decimal_value b) - word_of_int (decimal_value a) + 1,
           checksum = c\<rparr>"
    using assms by (intro Range_parse_pair)
  have off: "uint (word_of_int (decimal_value a) :: size_t) = decimal_value a"
    using assms(1) by (rule uint_numeral_value)
  define x where "x = decimal_value b - decimal_value a + 1"
  have cnt: "uint (word_of_int (decimal_value b) - word_of_int (decimal_value a) + 1 :: size_t)
               = x mod 2 ^ 64"
    unfolding x_def by (rule uint_count)
  have bounds: "0 \<le> decimal_value b" "decimal_value a < 2 ^ 64"
    using assms(1,2) by (simp_all add: is_numeral_def decimal_value_nonneg)
  have zero: "word_of_int (decimal_value b) - word_of_int (decimal_value a) + 1 = (0 :: size_t)"
    if "decimal_value b + 1 = decimal_value a"
  proof -
    have "x = 0" using that by (simp add: x_def)
    then have "uint (word_of_int (decimal_value b) - word_of_int (decimal_value a) + 1 :: size_t)
                 = uint (0 :: size_t)"
      using cnt by simp
    then show ?thesis
      by (simp only: word_uint_eq_iff [symmetric])
  qed
  have wrap: "x mod 2 ^ 64 = 2 ^ 64 - (decimal_value a - decimal_value b - 1)"
    if "decimal_value b + 1 < decimal_value a"
  proof -
    have "0 \<le> x + 2 ^ 64" "x + 2 ^ 64 < 2 ^ 64"
      using that bounds by (simp_all add: x_def)
    then have "(x + 2 ^ 64) mod 2 ^ 64 = x + 2 ^ 64"
      by (rule mod_pos_pos_trivial)
    moreover have "(x + 2 ^ 64) mod 2 ^ 64 = x mod 2 ^ 64"
      by simp
    ultimately show ?thesis
      by (simp add: x_def)
  qed
  show ?thesis
    unfolding parse using off cnt zero wrap by (simp add: x_def)
qed

theorem Range_parse_inverted_pair_wraps_witness:
  "\<exists>r. Range_parse (Some (XMLElement ''Range'' (Some ''9-3'') [(''chksum'', ''9f'')] [])) = Inr r
      \<and> uint (offset r) = 9 \<and> uint (blockCount r) = 18446744073709551611
      \<and> checksum r = ''9f''"
proof -
  have n: "is_numeral ''9''" "is_numeral ''3''" "decimal_value ''3'' < decimal_value ''9''"
    by (simp_all add: is_numeral_def isdigit_def decimal_value_def digit_value_def)
  have t: "GetText (XMLElement ''Range'' (Some ''9-3'') [(''chksum'', ''9f'')] [])
             = Some (''9'' @ ''-'' @ ''3'')"
    by simp
  have c: "Attribute (XMLElement ''Range'' (Some ''9-3'') [(''chksum'', ''9f'')] []) ''chksum''
             = Some ''9f''"
    by (simp add: Attribute_def)
  have v: "decimal_value ''9'' = 9" "decimal_value ''3'' = 3"
    by (simp_all add: decimal_value_def digit_value_def)
  from Range_parse_inverted_pair_wraps [OF n t c] obtain r where
    "Range_parse (Some (XMLElement ''Range'' (Some ''9-3'') [(''chksum'', ''9f'')] [])) = Inr r"
    "uint (offset r) = decimal_value ''9''"
    "uint (blockCount r) = (decimal_value ''3'' - decimal_value ''9'' + 1) mod 2 ^ 64"
    "checksum r = ''9f''"
    by blast
  then show ?thesis
    by (simp add: v)
qed

text \<open>
  C10. On an empty byte sequence \<^verbatim>\<open>from_xml_data\<close> throws the runtime error
  \<open>bmap file is empty!\<close>, whatever the XML parser would make of the bytes: the
  parser is not asked.
\<close>

theorem from_xml_data_empty:
  "from_xml_data xml_parse [] = Inl (RuntimeError ''bmap file is empty!'')"
  by (simp add: from_xml_data_def)


section \<open>Properties of the copy loop\<close>

lemma copy_chunks_Some_progress:
  assumes "copy_chunks blkSize bufferMaxBlocks callback blocksLeft st = Some st'"
  shows "blocksLeft = 0 \<or> bufferMaxBlocks \<noteq> 0"
proof (rule copy_chunks.raw_induct
    [where P = "\<lambda>(bs::size_t) (mb::size_t) (cb::bool) (n::size_t)
                  (s::copy_state) (s'::copy_state). n = 0 \<or> mb \<noteq> 0", OF _ assms])
  fix f :: "size_t \<Rightarrow> size_t \<Rightarrow> bool \<Rightarrow> size_t \<Rightarrow> copy_state \<Rightarrow> copy_state option"
  fix bs mb :: size_t and cb :: bool and n :: size_t and s s' :: copy_state
  assume IH: "\<And>bs mb cb n s s'. f bs mb cb n s = Some s' \<Longrightarrow> n = 0 \<or> mb \<noteq> 0"
  assume body: "(if 0 < n
      then f bs mb cb (n - (if mb < n then mb else n))
             (copy_chunk bs cb (if mb < n then mb else n) s)
      else Some s) = Some s'"
  show "n = 0 \<or> mb \<noteq> 0"
  proof (rule ccontr)
    assume "\<not> (n = 0 \<or> mb \<noteq> 0)"
    then have n: "0 < n" and z: "mb = 0"
      by (simp_all add: word_greater_zero_iff)
    with body have "f bs 0 cb n (copy_chunk bs cb 0 s) = Some s'"
      by simp
    from IH [OF this] n show False by simp
  qed
qed

lemma copy_chunks_diverges:
  "0 < blocksLeft \<Longrightarrow> copy_chunks blkSize 0 callback blocksLeft st = None"
  using copy_chunks_Some_progress [of blkSize 0 callback blocksLeft st]
  by (cases "copy_chunks blkSize 0 callback blocksLeft st") auto

lemma copy_chunk_progress:
  "blocksWritten (progress (copy_chunk blkSize callback r st)) = blocksWritten (progress st) + r"
  "mappedBlocks (progress (copy_chunk blkSize callback r st)) = mappedBlocks (progress st)"
  by (simp_all add: copy_chunk_def Let_def fwrite_def wicFile_read_def)

lemma copy_chunks_terminates:
  assumes "0 < bufferMaxBlocks"
  shows "\<exists>st'. copy_chunks blkSize bufferMaxBlocks callback blocksLeft st = Some st'
     \<and> blocksWritten (progress st') = blocksWritten (progress st) + blocksLeft
     \<and> mappedBlocks (progress st') = mappedBlocks (progress st)"
proof (induction "unat blocksLeft" arbitrary: blocksLeft st rule: less_induct)
  case less
  show ?case
  proof (cases "0 < blocksLeft")
    case False
    then show ?thesis by (subst copy_chunks.simps) (simp add: word_greater_zero_iff)
  next
    case True
    define r where "r = (if bufferMaxBlocks < blocksLeft then bufferMaxBlocks else blocksLeft)"
    have r: "0 < r" "r \<le> blocksLeft" using assms True by (auto simp: r_def)
    have "unat (blocksLeft - r) = unat blocksLeft - unat r"
      using r(2) by (rule unat_sub)
    moreover have "0 < unat r" "unat r \<le> unat blocksLeft"
      using r by (simp_all add: word_less_nat_alt word_le_nat_alt)
    ultimately have "unat (blocksLeft - r) < unat blocksLeft"
      by simp
    from less [OF this, of "copy_chunk blkSize callback r st"]
    obtain st' where st':
      "copy_chunks blkSize bufferMaxBlocks callback (blocksLeft - r)
         (copy_chunk blkSize callback r st) = Some st'"
      "blocksWritten (progress st')
         = blocksWritten (progress (copy_chunk blkSize callback r st)) + (blocksLeft - r)"
      "mappedBlocks (progress st') = mappedBlocks (progress (copy_chunk blkSize callback r st))"
      by blast
    show ?thesis
      by (subst copy_chunks.simps)
        (use True st' in \<open>simp add: r_def [symmetric] copy_chunk_progress\<close>)
  qed
qed

text \<open>
  C1, at the input it fails on: block size 4096, ranges \<open>{0,2}\<close> and \<open>{10,3}\<close>, an
  image of 1 MiB. After the first range both streams stand at byte 8192 and
  \<open>blocksWritten\<close> is 2. The seek in front of the second range passes the block
  count \<open>10 - 2 = 8\<close> to \<^verbatim>\<open>fseek\<close> and \<^verbatim>\<open>seekg\<close>, which take bytes: the three
  blocks are read from byte 8200 of the image and written at byte 8200 of the
  device, not at byte \<open>10 * 4096 = 40960\<close>.
\<close>

theorem copy_seeks_blocks_as_bytes:
  "copy_blocks
     \<lparr>imageSize = 1048576, blockSize = 4096, blocksCount = 256, mappedBlocksCount = 5,
      checksumType = ''sha256'', fileChecksum = ''00'',
      blockMap = [\<lparr>offset = 0, blockCount = 2, checksum = ''9f''\<rparr>,
                  \<lparr>offset = 10, blockCount = 3, checksum = ''a0''\<rparr>]\<rparr>
     False
     \<lparr>wicSize = 1048576, wicPos = 0, wicFail = False, devPos = 0,
      progress = \<lparr>mappedBlocks = 5, blocksWritten = 0\<rparr>, trace = []\<rparr>
   = Some (Inr \<lparr>wicSize = 1048576, wicPos = 20488, wicFail = False, devPos = 20488,
                 progress = \<lparr>mappedBlocks = 5, blocksWritten = 5\<rparr>,
                 trace = [SourceRead 0 8192 8192, DeviceWrite 0 8192, DeviceFsync,
                          DeviceSeek 8, SourceSeek 8,
                          SourceRead 8200 12288 12288, DeviceWrite 8200 12288,
                          DeviceFsync]\<rparr>)"
  by code_simp

text \<open>
  C7. Let the bytes be non-empty and parse to a root element that has no
  \<^verbatim>\<open>BlockMap\<close> child and whose six scalar elements parse. Then
  \<^verbatim>\<open>from_xml_data\<close> returns the descriptor with these scalars and an empty block
  map. A copy driven by it, from any state of the streams, returns that state as it
  was: nothing is sought, read, written or reported. (With a block size of 0 the
  copy stops at the division that sizes the buffer, before the loop.)
\<close>

theorem absent_BlockMap_copies_nothing:
  assumes "bytes \<noteq> []" and "xml_parse bytes = Some rootElem"
    and "FirstChildElement rootElem ''BlockMap'' = None"
    and "valueFromSimpleXPath_size_t (Some rootElem) ''ImageSize'' = Inr imgSize"
    and "valueFromSimpleXPath_size_t (Some rootElem) ''BlockSize'' = Inr blkSize"
    and "valueFromSimpleXPath_size_t (Some rootElem) ''BlocksCount'' = Inr blksCount"
    and "valueFromSimpleXPath_size_t (Some rootElem) ''MappedBlocksCount'' = Inr mapped"
    and "valueFromSimpleXPath_string (Some rootElem) ''ChecksumType'' = Inr chcksmType"
    and "valueFromSimpleXPath_string (Some rootElem) ''BmapFileChecksum'' = Inr chcksum"
  shows "\<exists>bmapFile. from_xml_data xml_parse bytes = Inr bmapFile
           \<and> bmapFile = \<lparr>imageSize = imgSize, blockSize = blkSize, blocksCount = blksCount,
                mappedBlocksCount = mapped, checksumType = chcksmType,
                fileChecksum = chcksum, blockMap = []\<rparr>
           \<and> copy_blocks bmapFile callback st
               = (if blkSize = 0 then Some (Inl DivisionByZero) else Some (Inr st))"
  using assms
  by (simp add: from_xml_data_def from_root_def and_then_def read_blockMap_def copy_blocks_def)

theorem absent_BlockMap_copies_nothing_witness:
  "\<exists>bmapFile.
     from_xml_data
       (\<lambda>bytes. Some (XMLElement ''bmap'' None []
          [XMLElement ''ImageSize'' (Some ''8192'') [] [],
           XMLElement ''BlockSize'' (Some ''4096'') [] [],
           XMLElement ''BlocksCount'' (Some ''2'') [] [],
           XMLElement ''MappedBlocksCount'' (Some ''0'') [] [],
           XMLElement ''ChecksumType'' (Some ''sha256'') [] [],
           XMLElement ''BmapFileChecksum'' (Some ''00'') [] []]))
       ''<bmap/>'' = Inr bmapFile
     \<and> bmapFile = \<lparr>imageSize = 8192, blockSize = 4096, blocksCount = 2,
          mappedBlocksCount = 0, checksumType = ''sha256'', fileChecksum = ''00'',
          blockMap = []\<rparr>
     \<and> copy_blocks bmapFile True (opened_streams 8192 True bmapFile)
         = Some (Inr (opened_streams 8192 True bmapFile))"
proof -
  let ?rootElem = "XMLElement ''bmap'' None []
          [XMLElement ''ImageSize'' (Some ''8192'') [] [],
           XMLElement ''BlockSize'' (Some ''4096'') [] [],
           XMLElement ''BlocksCount'' (Some ''2'') [] [],
           XMLElement ''MappedBlocksCount'' (Some ''0'') [] [],
           XMLElement ''ChecksumType'' (Some ''sha256'') [] [],
           XMLElement ''BmapFileChecksum'' (Some ''00'') [] []]"
  have 1: "''<bmap/>'' \<noteq> []" by simp
  have 2: "(\<lambda>bytes::string. Some ?rootElem) ''<bmap/>'' = Some ?rootElem" by simp
  have 3: "FirstChildElement ?rootElem ''BlockMap'' = None" by code_simp
  have 4: "valueFromSimpleXPath_size_t (Some ?rootElem) ''ImageSize'' = Inr 8192" by code_simp
  have 5: "valueFromSimpleXPath_size_t (Some ?rootElem) ''BlockSize'' = Inr 4096" by code_simp
  have 6: "valueFromSimpleXPath_size_t (Some ?rootElem) ''BlocksCount'' = Inr 2" by code_simp
  have 7: "valueFromSimpleXPath_size_t (Some ?rootElem) ''MappedBlocksCount'' = Inr 0" by code_simp
  have 8: "valueFromSimpleXPath_string (Some ?rootElem) ''ChecksumType'' = Inr ''sha256''"
    by code_simp
  have 9: "valueFromSimpleXPath_string (Some ?rootElem) ''BmapFileChecksum'' = Inr ''00''"
    by code_simp
  show ?thesis
    using absent_BlockMap_copies_nothing [OF 1 2 3 4 5 6 7 8 9, of True]
    by simp
qed

text \<open>
  C8, at the input it fails on: a block size of 16 MiB and one range of one block.
  The buffer is capped at 8 MiB, so no block fits in it: \<open>bufferMaxBlocks\<close> is 0,
  every pass of the inner loop moves 0 blocks and \<open>blockCount\<close> never goes down. The
  copy does not return, with or without a callback and whatever the streams hold.
\<close>

theorem copy_never_returns_for_large_blocks:
  "copy_blocks
     \<lparr>imageSize = 16777216, blockSize = 16777216, blocksCount = 1, mappedBlocksCount = 1,
      checksumType = ''sha256'', fileChecksum = ''00'',
      blockMap = [\<lparr>offset = 0, blockCount = 1, checksum = ''9f''\<rparr>]\<rparr>
     callback st = None"
proof -
  have "min (16777216 * 1024 * 2) MAX_BUF_SIZE div (16777216 :: size_t) = 0"
    by (simp add: MAX_BUF_SIZE_def)
  moreover have "copy_chunks 16777216 0 callback 1 (seek_to_range
      \<lparr>offset = 0, blockCount = 1, checksum = ''9f''\<rparr> st) = None"
    by (rule copy_chunks_diverges) simp
  ultimately show ?thesis
    by (simp add: copy_blocks_def)
qed

section \<open>Properties of the rounding\<close>

lemma powi_less_exponent:
  assumes "(2 :: rat) powi a < 2 powi b"
  shows "a < b"
proof (rule ccontr)
  assume "\<not> a < b"
  then have "(2 :: rat) powi b \<le> 2 powi a"
    by (intro power_int_increasing) simp_all
  with assms show False by simp
qed

lemma binade_bounds:
  assumes "0 < x"
  shows "2 powi binade x \<le> x" and "x < 2 powi (binade x + 1)"
proof -
  obtain p q where pq: "quotient_of x = (p, q)"
    by (cases "quotient_of x")
  then have q: "0 < q" and x: "x = of_int p / of_int q"
    by (simp_all add: quotient_of_denom_pos quotient_of_div)
  with assms have p: "0 < p"
    by (simp add: zero_less_divide_iff)
  define a b where "a = bitlen p" and "b = bitlen q"
  have ab: "1 \<le> a" "1 \<le> b"
    using p q by (auto simp: a_def b_def bitlen_alt_def)
  have "2 ^ nat (a - 1) \<le> p" "p < 2 ^ nat a" "2 ^ nat (b - 1) \<le> q" "q < 2 ^ nat b"
    using bitlen_bounds [OF p] bitlen_bounds [OF q] by (simp_all add: a_def b_def)
  then have "(of_int (2 ^ nat (a - 1)) :: rat) \<le> of_int p" "(of_int p :: rat) < of_int (2 ^ nat a)"
    "(of_int (2 ^ nat (b - 1)) :: rat) \<le> of_int q" "(of_int q :: rat) < of_int (2 ^ nat b)"
    by (simp_all only: of_int_le_iff of_int_less_iff)
  then have bp: "(2 :: rat) powi (a - 1) \<le> of_int p" "(of_int p :: rat) < 2 powi a"
    and bq: "(2 :: rat) powi (b - 1) \<le> of_int q" "(of_int q :: rat) < 2 powi b"
    using ab by (simp_all add: power_int_def)
  have qpos: "(0 :: rat) < of_int q" using q by simp
  have up: "x < 2 powi (a - b + 1)"
  proof -
    have "x < 2 powi a / of_int q"
      unfolding x using bp(2) qpos by (simp add: divide_strict_right_mono)
    also have "\<dots> \<le> 2 powi a / 2 powi (b - 1)"
      using bq(1) qpos by (intro divide_left_mono mult_pos_pos) simp_all
    also have "\<dots> = 2 powi (a - (b - 1))"
      by (rule power_int_diff [symmetric]) simp
    finally show ?thesis by (simp add: algebra_simps)
  qed
  have low: "2 powi (a - b - 1) \<le> x"
  proof -
    have "(2 :: rat) powi (a - 1 - b) = 2 powi (a - 1) / 2 powi b"
      by (rule power_int_diff) simp
    then have "(2 :: rat) powi (a - b - 1) = 2 powi (a - 1) / 2 powi b"
      by (simp add: algebra_simps)
    also have "\<dots> \<le> 2 powi (a - 1) / of_int q"
      using bq(2) qpos by (intro divide_left_mono mult_pos_pos) simp_all
    also have "\<dots> \<le> x"
      unfolding x using bp(1) qpos by (simp add: divide_right_mono)
    finally show ?thesis .
  qed
  have e: "binade x = (if 2 powi (a - b) \<le> x then a - b else a - b - 1)"
    by (simp add: binade_def pq a_def b_def Let_def)
  show "2 powi binade x \<le> x"
    using low by (simp add: e)
  show "x < 2 powi (binade x + 1)"
    using up by (simp add: e not_le)
qed

lemma binade_unique:
  assumes "2 powi e \<le> x" "x < 2 powi (e + 1)"
  shows "binade x = e"
proof -
  have pos: "0 < x"
    using assms(1) by (rule less_le_trans [rotated]) simp
  note b = binade_bounds [OF pos]
  have "(2 :: rat) powi e < 2 powi (binade x + 1)"
    using assms(1) b(2) by simp
  then have 1: "e < binade x + 1"
    by (rule powi_less_exponent)
  have "(2 :: rat) powi binade x < 2 powi (e + 1)"
    using assms(2) b(1) by simp
  then have 2: "binade x < e + 1"
    by (rule powi_less_exponent)
  from 1 2 show ?thesis by simp
qed

lemma binade_mono:
  assumes "0 < x" "x \<le> y"
  shows "binade x \<le> binade y"
proof -
  have "(2 :: rat) powi binade x < 2 powi (binade y + 1)"
    using binade_bounds(1) [OF assms(1)] binade_bounds(2) [of y] assms by simp
  then have "binade x < binade y + 1"
    by (rule powi_less_exponent)
  then show ?thesis by simp
qed

lemma round_half_even_error:
  "\<bar>of_int (round_half_even y) - y\<bar> \<le> 1 / 2"
proof -
  have "0 \<le> y - of_int \<lfloor>y\<rfloor>" "y - of_int \<lfloor>y\<rfloor> < 1"
    by linarith+
  then show ?thesis
    by (auto simp: round_half_even_def)
qed

lemma round_half_even_of_int: "round_half_even (of_int n) = n"
  by (simp add: round_half_even_def)

lemma round_half_even_mono:
  assumes "y \<le> z"
  shows "round_half_even y \<le> round_half_even z"
proof (cases "\<lfloor>y\<rfloor> = \<lfloor>z\<rfloor>")
  case True
  with assms show ?thesis
    by (auto simp: round_half_even_def)
next
  case False
  with assms have "\<lfloor>y\<rfloor> + 1 \<le> \<lfloor>z\<rfloor>"
    using floor_mono [OF assms] by simp
  moreover have "round_half_even y \<le> \<lfloor>y\<rfloor> + 1" "\<lfloor>z\<rfloor> \<le> round_half_even z"
    by (simp_all add: round_half_even_def)
  ultimately show ?thesis by simp
qed

lemma round_half_even_nonneg: "0 \<le> y \<Longrightarrow> 0 \<le> round_half_even y"
  using round_half_even_mono [of 0 y] round_half_even_of_int [of 0] by simp

lemma to_float_nonneg: "0 \<le> x \<Longrightarrow> 0 \<le> to_float x"
  by (simp add: to_float_def round_half_even_nonneg)

lemma binade_powi: "binade (2 powi e) = e"
  by (rule binade_unique) (simp_all add: power_int_strict_increasing)

lemma powi_shift:
  "(2 :: rat) powi (k + 24) = 2 powi k * 2 ^ 24"
  "(2 :: rat) powi (k + 23) = 2 powi k * 2 ^ 23"
proof -
  have "(2 :: rat) powi (k + 24) = 2 powi k * 2 powi 24"
    by (rule power_int_add) simp
  then show "(2 :: rat) powi (k + 24) = 2 powi k * 2 ^ 24" by simp
  have "(2 :: rat) powi (k + 23) = 2 powi k * 2 powi 23"
    by (rule power_int_add) simp
  then show "(2 :: rat) powi (k + 23) = 2 powi k * 2 ^ 23" by simp
qed

lemma ulp_exponent_normal:
  assumes "2 powi (- 126) \<le> x"
  shows "ulp_exponent x = binade x - 23"
proof -
  have "(0 :: rat) < 2 powi (- 126)"
    by (rule zero_less_power_int) simp
  then have "binade (2 powi (- 126)) \<le> binade x"
    using assms by (rule binade_mono)
  then have "- 126 \<le> binade x"
    unfolding binade_powi .
  then show ?thesis
    by (simp add: ulp_exponent_def)
qed

lemma to_float_error:
  assumes "2 powi (- 126) \<le> x"
  shows "\<bar>to_float x - x\<bar> \<le> x / 2 ^ 24"
proof -
  have "(0 :: rat) < 2 powi (- 126)"
    by (rule zero_less_power_int) simp
  then have pos: "0 < x" using assms by (rule less_le_trans)
  define k where "k = ulp_exponent x"
  define u :: rat where "u = 2 powi k"
  have u: "0 < u" by (simp add: u_def)
  have k: "binade x = k + 23"
    unfolding k_def using ulp_exponent_normal [OF assms] by simp
  have "to_float x - x = (of_int (round_half_even (x / u)) - x / u) * u"
    using pos u by (simp add: to_float_def k_def u_def algebra_simps)
  then have "\<bar>to_float x - x\<bar> = \<bar>of_int (round_half_even (x / u)) - x / u\<bar> * u"
    using u by (simp add: abs_mult)
  also have "\<dots> \<le> 1 / 2 * u"
    using u round_half_even_error [of "x / u"] by (intro mult_right_mono) simp_all
  also have "1 / 2 * u = u * 2 ^ 23 / 2 ^ 24"
    by simp
  also have "u * 2 ^ 23 = 2 powi binade x"
    unfolding k u_def by (rule powi_shift(2) [symmetric])
  also have "2 powi binade x / 2 ^ 24 \<le> x / 2 ^ 24"
    using binade_bounds(1) [OF pos] by (simp add: divide_right_mono)
  finally show ?thesis .
qed

lemma to_float_mono:
  assumes "0 \<le> x" "x \<le> y"
  shows "to_float x \<le> to_float y"
proof (cases "x = 0")
  case True
  with assms show ?thesis
    using to_float_nonneg [of y] by (simp add: to_float_def)
next
  case False
  with assms have x: "0 < x" and y: "0 < y" by simp_all
  define kx ky where "kx = ulp_exponent x" and "ky = ulp_exponent y"
  have fx: "to_float x = of_int (round_half_even (x / 2 powi kx)) * 2 powi kx"
    and fy: "to_float y = of_int (round_half_even (y / 2 powi ky)) * 2 powi ky"
    using x y by (simp_all add: to_float_def kx_def ky_def)
  have le: "kx \<le> ky"
    using binade_mono [OF x assms(2)] by (simp add: kx_def ky_def ulp_exponent_def)
  show ?thesis
  proof (cases "kx = ky")
    case True
    have "x / 2 powi ky \<le> y / 2 powi ky"
      using assms(2) by (simp add: divide_right_mono)
    then have "round_half_even (x / 2 powi ky) \<le> round_half_even (y / 2 powi ky)"
      by (rule round_half_even_mono)
    then show ?thesis
      unfolding fx fy True by (intro mult_right_mono) simp_all
  next
    case False
    with le have lt: "kx < ky" by simp
    then have ey: "binade y = ky + 23" and ex: "binade x \<le> kx + 23"
      by (simp_all add: kx_def ky_def ulp_exponent_def max_def split: if_splits)
    have "x < 2 powi (binade x + 1)"
      using x by (rule binade_bounds)
    also have "\<dots> \<le> 2 powi (kx + 24)"
      using ex by (intro power_int_increasing) simp_all
    also have "\<dots> = 2 powi kx * 2 ^ 24"
      by (rule powi_shift)
    finally have "x / 2 powi kx \<le> of_int (2 ^ 24)"
      by (simp add: pos_divide_le_eq mult.commute)
    then have "round_half_even (x / 2 powi kx) \<le> round_half_even (of_int (2 ^ 24))"
      by (rule round_half_even_mono)
    then have "round_half_even (x / 2 powi kx) \<le> 2 ^ 24"
      by (simp only: round_half_even_of_int)
    then have "(of_int (round_half_even (x / 2 powi kx)) :: rat) \<le> of_int (2 ^ 24)"
      by (simp only: of_int_le_iff)
    then have "to_float x \<le> 2 ^ 24 * 2 powi kx"
      unfolding fx by (intro mult_right_mono) simp_all
    also have "\<dots> = 2 powi (kx + 24)"
      by (simp only: powi_shift mult.commute)
    also have "\<dots> \<le> 2 powi (ky + 23)"
      using lt by (intro power_int_increasing) simp_all
    finally have upper: "to_float x \<le> 2 powi (ky + 23)" .
    have "2 powi (ky + 23) \<le> y"
      using binade_bounds(1) [OF y] by (simp add: ey)
    moreover have "(2 :: rat) powi (ky + 23) = 2 powi ky * 2 ^ 23"
      by (rule powi_shift)
    ultimately have "of_int (2 ^ 23) \<le> y / 2 powi ky"
      by (simp add: pos_le_divide_eq mult.commute)
    then have "round_half_even (of_int (2 ^ 23)) \<le> round_half_even (y / 2 powi ky)"
      by (rule round_half_even_mono)
    then have "2 ^ 23 \<le> round_half_even (y / 2 powi ky)"
      by (simp only: round_half_even_of_int)
    then have "(of_int (2 ^ 23) :: rat) \<le> of_int (round_half_even (y / 2 powi ky))"
      by (simp only: of_int_le_iff)
    then have "2 ^ 23 * 2 powi ky \<le> to_float y"
      unfolding fy by (intro mult_right_mono) simp_all
    moreover have "(2 :: rat) ^ 23 * 2 powi ky = 2 powi (ky + 23)"
      by (simp only: powi_shift mult.commute)
    ultimately have "2 powi (ky + 23) \<le> to_float y" by simp
    with upper show ?thesis by simp
  qed
qed

section \<open>Properties of percent\<close>

lemma normal_range: "1 / 2 ^ 70 \<le> x \<Longrightarrow> 2 powi (- 126) \<le> (x :: rat)"
proof -
  assume "1 / 2 ^ 70 \<le> x"
  moreover have "(2 :: rat) powi (- 126) \<le> 1 / 2 ^ 70"
    by simp
  ultimately show ?thesis by (rule order_trans [rotated])
qed

lemma to_float_rel:
  assumes "1 / 2 ^ 70 \<le> x"
  shows "x * (16777215 / 16777216) \<le> to_float x"
    and "to_float x \<le> x * (16777217 / 16777216)"
proof -
  have "\<bar>to_float x - x\<bar> \<le> x / 2 ^ 24"
    using assms by (intro to_float_error normal_range)
  then have "to_float x - x \<le> x / 2 ^ 24 \<and> - (to_float x - x) \<le> x / 2 ^ 24"
    by (simp only: abs_le_iff)
  then have e: "to_float x - x \<le> x / 16777216" "x - to_float x \<le> x / 16777216"
    by simp_all
  show "x * (16777215 / 16777216) \<le> to_float x"
    using e(2) by linarith
  show "to_float x \<le> x * (16777217 / 16777216)"
    using e(1) by linarith
qed

lemma percent_value_close:
  fixes m w :: rat
  assumes m: "1 \<le> m" "m \<le> 2 ^ 64" and w: "w = 0 \<or> 1 \<le> w" "w \<le> m"
  shows "\<bar>to_float (to_float (100 / to_float m) * to_float w) - 100 * w / m\<bar> \<le> 1 / 2"
proof -
  define a b :: rat where "a = 16777215 / 16777216" and "b = 16777217 / 16777216"
  have a: "0 < a" "a \<le> 1" and b: "0 < b" "1 \<le> b"
    by (simp_all add: a_def b_def)
  define M where "M = to_float m"
  have M: "m * a \<le> M" "M \<le> m * b"
    unfolding M_def a_def b_def using m(1) by (intro to_float_rel; simp)+
  have "1 * a \<le> m * a"
    using m(1) a(1) by (intro mult_right_mono) simp_all
  with M(1) have Mlow: "a \<le> M" by simp
  with a(1) have Mpos: "0 < M" by simp
  have ma: "0 < m * a"
    using m(1) a(1) by (intro mult_pos_pos) simp_all
  have "m * b \<le> 2 ^ 64 * b"
    using m(2) b(1) by (intro mult_right_mono) simp_all
  also have "\<dots> \<le> 2 ^ 65"
    by (simp add: b_def)
  finally have Mup: "M \<le> 2 ^ 65"
    using M(2) by simp
  define Q0 where "Q0 = 100 / M"
  have "100 / 2 ^ 65 \<le> Q0"
    unfolding Q0_def using Mup Mpos by (intro divide_left_mono mult_pos_pos) simp_all
  then have Q0low: "100 / 2 ^ 65 \<le> Q0" .
  then have Q0n: "1 / 2 ^ 70 \<le> Q0"
    by (rule order_trans [rotated]) simp
  have Q0pos: "0 < Q0"
    unfolding Q0_def using Mpos by simp
  define q where "q = to_float Q0"
  have q: "Q0 * a \<le> q" "q \<le> Q0 * b"
    unfolding q_def a_def b_def using Q0n by (intro to_float_rel; simp)+
  have qpos: "0 \<le> q"
    unfolding q_def using Q0pos by (intro to_float_nonneg) simp
  define x where "x = 100 * w / m"
  have wnn: "0 \<le> w" using w(1) by auto
  have x: "0 \<le> x" "x \<le> 100"
    using m(1) w(2) wnn by (simp_all add: x_def field_simps)
  show ?thesis
  proof (cases "w = 0")
    case True
    then show ?thesis by (simp add: to_float_def)
  next
    case False
    with w(1) have w1: "1 \<le> w" by simp
    define W where "W = to_float w"
    have W: "w * a \<le> W" "W \<le> w * b"
      unfolding W_def a_def b_def using w1 by (intro to_float_rel; simp)+
    have "1 * a \<le> w * a"
      using w1 a(1) by (intro mult_right_mono) simp_all
    with W(1) have Wlow: "a \<le> W" by simp
    with a(1) have Wpos: "0 \<le> W" by simp
    define P0 where "P0 = q * W"
    have "100 / 2 ^ 65 * a * a \<le> Q0 * a * a"
      using Q0low a(1) by (intro mult_right_mono) simp_all
    also have "\<dots> \<le> q * a"
      using q(1) a(1) by (intro mult_right_mono) simp_all
    also have "\<dots> \<le> q * W"
      using Wlow qpos by (intro mult_left_mono) simp_all
    finally have "100 / 2 ^ 65 * a * a \<le> P0"
      by (simp add: P0_def)
    moreover have "1 / 2 ^ 70 \<le> 100 / 2 ^ 65 * a * a"
      by (simp add: a_def)
    ultimately have P0n: "1 / 2 ^ 70 \<le> P0" by simp
    then have P0pos: "0 \<le> P0"
      by (rule order_trans [rotated]) simp
    define v where "v = to_float P0"
    have v: "P0 * a \<le> v" "v \<le> P0 * b"
      unfolding v_def a_def b_def using P0n by (intro to_float_rel; simp)+
    have wb3: "0 \<le> w * (b * b * b)" "0 \<le> w * (a * a * a)"
      using wnn a(1) b(1) by simp_all
    have upper: "v \<le> x * (201 / 200)"
    proof -
      have "q * W \<le> (Q0 * b) * (w * b)"
        using q(2) W(2) Wpos Q0pos b(1) by (intro mult_mono) simp_all
      then have "P0 * b \<le> (Q0 * b) * (w * b) * b"
        unfolding P0_def using b(1) by (intro mult_right_mono) simp_all
      with v(2) have "v \<le> Q0 * (w * (b * b * b))"
        by (simp add: mult_ac)
      also have "Q0 \<le> 100 / (m * a)"
        unfolding Q0_def by (intro frac_le) (use M(1) ma in simp_all)
      then have "Q0 * (w * (b * b * b)) \<le> 100 / (m * a) * (w * (b * b * b))"
        using wb3(1) by (rule mult_right_mono)
      also have "100 / (m * a) * (w * (b * b * b)) = x * (b * b * b / a)"
        using m(1) a(1) by (simp add: x_def)
      also have "\<dots> \<le> x * (201 / 200)"
        using x(1) by (intro mult_left_mono) (simp_all add: a_def b_def)
      finally show ?thesis .
    qed
    have lower: "x * (199 / 200) \<le> v"
    proof -
      have mb: "0 < m * b"
        using m(1) b(1) by (intro mult_pos_pos) simp_all
      have "x * (199 / 200) \<le> x * (a * a * a / b)"
        using x(1) by (intro mult_left_mono) (simp_all add: a_def b_def)
      also have "\<dots> = 100 / (m * b) * (w * (a * a * a))"
        using m(1) b(1) by (simp add: x_def)
      also have "100 / (m * b) \<le> Q0"
        unfolding Q0_def by (intro frac_le) (use M(2) Mpos in simp_all)
      then have "100 / (m * b) * (w * (a * a * a)) \<le> Q0 * (w * (a * a * a))"
        using wb3(2) by (rule mult_right_mono)
      also have "Q0 * (w * (a * a * a)) = (Q0 * a) * (w * a) * a"
        by (simp add: mult_ac)
      also have "(Q0 * a) * (w * a) \<le> q * W"
        using q(1) W(1) qpos wnn a(1) by (intro mult_mono) simp_all
      then have "(Q0 * a) * (w * a) * a \<le> P0 * a"
        unfolding P0_def using a(1) by (intro mult_right_mono) simp_all
      also note v(1)
      finally show ?thesis .
    qed
    have "v = to_float (to_float (100 / to_float m) * to_float w)"
      by (simp add: v_def P0_def q_def Q0_def M_def W_def)
    moreover have "\<bar>v - x\<bar> \<le> 1 / 2"
      using upper lower x by (intro abs_leI) linarith+
    ultimately show ?thesis by (simp add: x_def)
  qed
qed

lemma percent_value_nonneg:
  fixes m w :: rat
  assumes "0 < m" "0 \<le> w"
  shows "0 \<le> to_float (to_float (100 / to_float m) * to_float w)"
  using assms by (intro to_float_nonneg mult_nonneg_nonneg divide_nonneg_nonneg) simp_all

lemma percent_close:
  assumes "mappedBlocks p \<noteq> 0" "blocksWritten p \<le> mappedBlocks p"
  shows "\<exists>v. percent p = Inr v \<and> uint v \<le> 100
           \<and> \<bar>uint v - 100 * uint (blocksWritten p) div uint (mappedBlocks p)\<bar> \<le> 1"
proof -
  define mi wi where "mi = uint (mappedBlocks p)" and "wi = uint (blocksWritten p)"
  have "uint (mappedBlocks p) \<noteq> 0"
    using assms(1) by (simp add: uint_0_iff)
  moreover have "0 \<le> uint (mappedBlocks p)"
    by simp
  ultimately have "1 \<le> uint (mappedBlocks p)"
    by linarith
  then have mi: "1 \<le> mi" "mi < 2 ^ 64"
    using uint_lt2p [of "mappedBlocks p"] by (simp_all add: mi_def)
  have wi: "0 \<le> wi" "wi \<le> mi"
    using assms(2) by (simp_all add: mi_def wi_def word_le_def)
  define m w :: rat where "m = of_int mi" and "w = of_int wi"
  have m: "1 \<le> m" "m \<le> 2 ^ 64"
  proof -
    show "1 \<le> m" using mi(1) by (simp add: m_def)
    have "(of_int mi :: rat) \<le> of_int (2 ^ 64)"
      using mi(2) by (simp only: of_int_le_iff)
    then show "m \<le> 2 ^ 64" by (simp add: m_def)
  qed
  have w: "w = 0 \<or> 1 \<le> w" "w \<le> m" "0 \<le> w"
    using wi by (auto simp: w_def m_def)
  define v where "v = to_float (to_float (100 / to_float m) * to_float w)"
  define x where "x = 100 * w / m"
  have close: "\<bar>v - x\<bar> \<le> 1 / 2"
    unfolding v_def x_def using m w(1,2) by (rule percent_value_close)
  have vnn: "0 \<le> v"
    unfolding v_def using m(1) w(3) by (intro percent_value_nonneg) simp_all
  have xle: "x \<le> 100"
    using m(1) w(2) by (simp add: x_def field_simps)
  have fx: "\<lfloor>x\<rfloor> = 100 * wi div mi"
  proof -
    have "x = of_int (100 * wi) / of_int mi"
      by (simp add: x_def w_def m_def)
    then show ?thesis by (simp only: floor_divide_of_int_eq)
  qed
  have "v - x \<le> 1 / 2 \<and> - (v - x) \<le> 1 / 2"
    using close by (simp only: abs_le_iff)
  then have cl: "v - x \<le> 1 / 2" "x - v \<le> 1 / 2"
    by simp_all
  have "x - 1 \<le> v" "v \<le> x + 1"
    using cl by linarith+
  then have "\<lfloor>x - 1\<rfloor> \<le> \<lfloor>v\<rfloor>" "\<lfloor>v\<rfloor> \<le> \<lfloor>x + 1\<rfloor>"
    by (simp_all only: floor_mono)
  then have near: "\<bar>\<lfloor>v\<rfloor> - \<lfloor>x\<rfloor>\<bar> \<le> 1"
    by simp
  have "v < 101"
    using cl xle by linarith
  then have "\<lfloor>v\<rfloor> < 101"
    by (simp add: floor_less_iff)
  then have le: "\<lfloor>v\<rfloor> \<le> 100" by simp
  have ge: "0 \<le> \<lfloor>v\<rfloor>"
    using vnn by simp
  have u8: "uint (word_of_int \<lfloor>v\<rfloor> :: 8 word) = \<lfloor>v\<rfloor>"
    using le ge by (simp add: uint_word_of_int take_bit_eq_mod)
  have "percent p = Inr (word_of_int \<lfloor>v\<rfloor>)"
    using assms(1) le
    by (simp add: percent_def float_of_size_t_def v_def m_def w_def mi_def wi_def Let_def)
  with u8 le near fx show ?thesis
    by (simp add: mi_def wi_def)
qed

lemma float_of_size_t_arg_nonneg: "0 \<le> (of_int (uint n) :: rat)"
  by (simp only: of_int_0_le_iff uint_ge_0)

lemma float_of_size_t_nonneg: "0 \<le> float_of_size_t n"
  unfolding float_of_size_t_def by (intro to_float_nonneg float_of_size_t_arg_nonneg)

lemma percent_mono:
  assumes "mappedBlocks p \<noteq> 0" "mappedBlocks q = mappedBlocks p"
    and "blocksWritten p \<le> blocksWritten q" "blocksWritten q \<le> mappedBlocks q"
  shows "\<exists>a b. percent p = Inr a \<and> percent q = Inr b \<and> a \<le> b"
proof -
  define Q where "Q = to_float (100 / float_of_size_t (mappedBlocks p))"
  define vp where "vp = to_float (Q * float_of_size_t (blocksWritten p))"
  define vq where "vq = to_float (Q * float_of_size_t (blocksWritten q))"
  have Qnn: "0 \<le> Q"
    unfolding Q_def by (intro to_float_nonneg divide_nonneg_nonneg float_of_size_t_nonneg) simp
  have "(of_int (uint (blocksWritten p)) :: rat) \<le> of_int (uint (blocksWritten q))"
    using assms(3) unfolding word_le_def by (simp only: of_int_le_iff)
  then have "float_of_size_t (blocksWritten p) \<le> float_of_size_t (blocksWritten q)"
    unfolding float_of_size_t_def by (intro to_float_mono float_of_size_t_arg_nonneg)
  then have "Q * float_of_size_t (blocksWritten p) \<le> Q * float_of_size_t (blocksWritten q)"
    using Qnn by (rule mult_left_mono)
  moreover have "0 \<le> Q * float_of_size_t (blocksWritten p)"
    using Qnn by (intro mult_nonneg_nonneg float_of_size_t_nonneg)
  ultimately have "vp \<le> vq"
    unfolding vp_def vq_def by (intro to_float_mono)
  then have fl: "\<lfloor>vp\<rfloor> \<le> \<lfloor>vq\<rfloor>"
    by (rule floor_mono)
  have "0 \<le> vp"
    unfolding vp_def using Qnn by (intro to_float_nonneg mult_nonneg_nonneg float_of_size_t_nonneg)
  then have vpnn: "0 \<le> \<lfloor>vp\<rfloor>"
    by simp
  have pq: "blocksWritten p \<le> mappedBlocks p"
    using assms by simp
  from percent_close [OF assms(1) pq] obtain a where a: "percent p = Inr a" "uint a \<le> 100"
    by blast
  from percent_close [of q] assms obtain b where b: "percent q = Inr b" "uint b \<le> 100"
    by auto
  have pa: "percent p = (if \<lfloor>vp\<rfloor> < 256 then Inr (word_of_int \<lfloor>vp\<rfloor>) else Inl UnrepresentableValue)"
    using assms(1) by (simp add: percent_def Let_def vp_def Q_def)
  have pb: "percent q = (if \<lfloor>vq\<rfloor> < 256 then Inr (word_of_int \<lfloor>vq\<rfloor>) else Inl UnrepresentableValue)"
    using assms(1,2) by (simp add: percent_def Let_def vq_def Q_def)
  from a pa have ea: "\<lfloor>vp\<rfloor> < 256" "a = word_of_int \<lfloor>vp\<rfloor>"
    by (auto split: if_splits)
  from b pb have eb: "\<lfloor>vq\<rfloor> < 256" "b = word_of_int \<lfloor>vq\<rfloor>"
    by (auto split: if_splits)
  have vqnn: "0 \<le> \<lfloor>vq\<rfloor>"
    using vpnn fl by (rule order_trans)
  have "uint a = \<lfloor>vp\<rfloor>" "uint b = \<lfloor>vq\<rfloor>"
    unfolding ea(2) eb(2) using ea(1) eb(1) vpnn vqnn
    by (simp_all only: uint_word_of_int take_bit_eq_mod) simp_all
  with fl have "a \<le> b"
    by (simp add: word_le_def)
  with a b show ?thesis by blast
qed

section \<open>Properties of the progress reports\<close>

lemma reported_append: "reported (xs @ ys) = reported xs @ reported ys"
  by (induction xs rule: reported.induct) simp_all

lemma bufferMaxBlocks_positive:
  assumes "blkSize \<noteq> 0" "blkSize \<le> MAX_BUF_SIZE"
  shows "0 < min (blkSize * 1024 * 2) MAX_BUF_SIZE div blkSize"
proof -
  define buffSize where "buffSize = min (blkSize * 1024 * 2) MAX_BUF_SIZE"
  have pos: "0 < unat blkSize"
    using assms(1) by (simp add: unat_gt_0)
  have le: "unat blkSize \<le> 8388608"
    using assms(2) by (simp add: word_le_nat_alt MAX_BUF_SIZE_def)
  have "unat (blkSize * 2048) = unat blkSize * 2048 mod 2 ^ 64"
    by (simp add: unat_word_ariths)
  also have "\<dots> = unat blkSize * 2048"
    using le by simp
  finally have m: "unat (blkSize * 2048) = unat blkSize * 2048" .
  have "blkSize \<le> blkSize * 2048"
    using pos by (simp add: word_le_nat_alt m)
  moreover have "buffSize = min (blkSize * 2048) MAX_BUF_SIZE"
    by (simp add: buffSize_def mult.commute)
  ultimately have "blkSize \<le> buffSize"
    using assms(2) by simp
  then have "unat blkSize \<le> unat buffSize"
    by (simp add: word_le_nat_alt)
  then have "1 \<le> unat buffSize div unat blkSize"
    using pos by (simp add: Suc_le_eq div_greater_zero_iff)
  then have "0 < unat (buffSize div blkSize)"
    by (simp add: unat_div)
  then show ?thesis
    by (simp only: word_less_nat_alt buffSize_def unat_0)
qed

lemma copy_chunk_trace:
  "reported (trace (copy_chunk blkSize callback r st))
     = reported (trace st)
       @ (if callback
          then [(progress st)\<lparr>blocksWritten := blocksWritten (progress st) + r\<rparr>]
          else [])"
  by (simp add: copy_chunk_def Let_def fwrite_def wicFile_read_def reported_append)

lemma copy_chunk_reports:
  assumes "reports_ordered m st"
    and "uint (blocksWritten (progress st)) + uint r < 2 ^ 64"
  shows "reports_ordered m (copy_chunk blkSize callback r st)"
    and "uint (blocksWritten (progress (copy_chunk blkSize callback r st)))
           = uint (blocksWritten (progress st)) + uint r"
proof -
  have add: "uint (blocksWritten (progress st) + r) = uint (blocksWritten (progress st)) + uint r"
    using assms(2) uint_add_lem [of "blocksWritten (progress st)" r] by simp
  show "uint (blocksWritten (progress (copy_chunk blkSize callback r st)))
           = uint (blocksWritten (progress st)) + uint r"
    by (simp add: copy_chunk_progress add)
  have ge: "uint (blocksWritten (progress st)) \<le> uint (blocksWritten (progress st) + r)"
    by (simp add: add)
  have old: "\<forall>p \<in> set (reported (trace st)).
      mappedBlocks p = m \<and> uint (blocksWritten p) \<le> uint (blocksWritten (progress st) + r)"
    using assms(1) ge by (fastforce simp: reports_ordered_def list_all_iff)
  have srt: "sorted (map (\<lambda>p. uint (blocksWritten p)) (reported (trace st)))"
    and tot: "mappedBlocks (progress st) = m"
    using assms(1) by (simp_all add: reports_ordered_def)
  show "reports_ordered m (copy_chunk blkSize callback r st)"
    using old srt tot
    by (simp add: reports_ordered_def copy_chunk_trace copy_chunk_progress sorted_append
          list_all_iff)
qed

lemma copy_chunks_reports:
  assumes "0 < bufferMaxBlocks"
  shows "reports_ordered m st \<Longrightarrow>
         uint (blocksWritten (progress st)) + uint blocksLeft < 2 ^ 64 \<Longrightarrow>
         \<exists>st'. copy_chunks blkSize bufferMaxBlocks callback blocksLeft st = Some st'
           \<and> reports_ordered m st'
           \<and> uint (blocksWritten (progress st'))
               = uint (blocksWritten (progress st)) + uint blocksLeft"
proof (induction "unat blocksLeft" arbitrary: blocksLeft st rule: less_induct)
  case less
  show ?case
  proof (cases "0 < blocksLeft")
    case False
    then have "blocksLeft = 0" by (simp add: word_greater_zero_iff)
    then show ?thesis
      using less.prems(1) by (subst copy_chunks.simps) simp
  next
    case True
    define r where "r = (if bufferMaxBlocks < blocksLeft then bufferMaxBlocks else blocksLeft)"
    have r: "0 < r" "r \<le> blocksLeft" using assms True by (auto simp: r_def)
    have sub: "unat (blocksLeft - r) = unat blocksLeft - unat r"
      using r(2) by (rule unat_sub)
    have ur: "0 < unat r" "unat r \<le> unat blocksLeft"
      using r by (simp_all add: word_less_nat_alt word_le_nat_alt)
    with sub have dec: "unat (blocksLeft - r) < unat blocksLeft"
      by simp
    have "uint r \<le> uint blocksLeft"
      using r(2) by (simp add: word_le_def)
    then have "uint (blocksLeft - r) = uint blocksLeft - uint r"
      by (simp only: uint_sub_lem)
    then have split: "uint blocksLeft = uint r + uint (blocksLeft - r)"
      by simp
    have small: "uint (blocksWritten (progress st)) + uint r < 2 ^ 64"
      using less.prems(2) split uint_ge_0 [of "blocksLeft - r"] by linarith
    note step = copy_chunk_reports [OF less.prems(1) small, of blkSize callback]
    have "uint (blocksWritten (progress (copy_chunk blkSize callback r st)))
            + uint (blocksLeft - r) < 2 ^ 64"
      using less.prems(2) split step(2) by simp
    from less.hyps [OF dec step(1) this]
    obtain st' where st':
      "copy_chunks blkSize bufferMaxBlocks callback (blocksLeft - r)
         (copy_chunk blkSize callback r st) = Some st'"
      "reports_ordered m st'"
      "uint (blocksWritten (progress st'))
         = uint (blocksWritten (progress (copy_chunk blkSize callback r st)))
           + uint (blocksLeft - r)"
      by blast
    have "uint (blocksWritten (progress st'))
            = uint (blocksWritten (progress st)) + uint blocksLeft"
      using st'(3) step(2) split by simp
    with st'(1,2) show ?thesis
      by (subst copy_chunks.simps) (use True in \<open>simp add: r_def [symmetric]\<close>)
  qed
qed

lemma seek_to_range_reports:
  "reports_ordered m (seek_to_range rng st) = reports_ordered m st"
  "progress (seek_to_range rng st) = progress st"
  by (simp_all add: seek_to_range_def seekg_cur_def fseek_cur_def Let_def
        reports_ordered_def reported_append)

lemma fsync_reports:
  "reports_ordered m (fsync st) = reports_ordered m st"
  "progress (fsync st) = progress st"
  by (simp_all add: fsync_def reports_ordered_def reported_append)

lemma copy_ranges_reports:
  assumes "0 < bufferMaxBlocks"
  shows "reports_ordered m st \<Longrightarrow>
         uint (blocksWritten (progress st)) + (\<Sum>r\<leftarrow>ranges. uint (blockCount r)) < 2 ^ 64 \<Longrightarrow>
         \<exists>st'. copy_ranges blkSize bufferMaxBlocks callback ranges st = Some st'
           \<and> reports_ordered m st'
           \<and> uint (blocksWritten (progress st'))
               = uint (blocksWritten (progress st)) + (\<Sum>r\<leftarrow>ranges. uint (blockCount r))"
proof (induction ranges arbitrary: st)
  case Nil
  then show ?case by simp
next
  case (Cons rng rest)
  have nn: "0 \<le> (\<Sum>r\<leftarrow>rest. uint (blockCount r))"
    by (rule sum_list_nonneg) auto
  have "uint (blocksWritten (progress (seek_to_range rng st))) + uint (blockCount rng) < 2 ^ 64"
    using Cons.prems(2) nn by (simp add: seek_to_range_reports)
  from copy_chunks_reports [OF assms _ this, of m blkSize callback] Cons.prems(1)
  obtain st1 where st1:
    "copy_chunks blkSize bufferMaxBlocks callback (blockCount rng) (seek_to_range rng st)
       = Some st1"
    "reports_ordered m st1"
    "uint (blocksWritten (progress st1))
       = uint (blocksWritten (progress st)) + uint (blockCount rng)"
    by (auto simp: seek_to_range_reports)
  have "uint (blocksWritten (progress (fsync st1))) + (\<Sum>r\<leftarrow>rest. uint (blockCount r)) < 2 ^ 64"
    using Cons.prems(2) st1(3) by (simp add: fsync_reports)
  from Cons.IH [OF _ this] st1(2)
  obtain st' where
    "copy_ranges blkSize bufferMaxBlocks callback rest (fsync st1) = Some st'"
    "reports_ordered m st'"
    "uint (blocksWritten (progress st'))
       = uint (blocksWritten (progress (fsync st1))) + (\<Sum>r\<leftarrow>rest. uint (blockCount r))"
    by (auto simp: fsync_reports)
  with st1 show ?case
    by (simp add: fsync_reports)
qed

section \<open>The percentage and the progress reports\<close>

text \<open>
  C5, at the input it fails on. With \<open>mappedBlocks = blocksWritten = 97\<close> the
  quotient \<open>100 / 97\<close> is rounded first, down to \<open>8648049 / 2 ^ 23\<close>; its product
  with 97 rounds to \<open>13107199 / 2 ^ 17\<close>, just below 100, and \<open>percent\<close> is 99. The
  floor of \<open>100 * 97 / 97\<close> is 100.
\<close>

theorem percent_differs_from_floor:
  "percent \<lparr>mappedBlocks = 97, blocksWritten = 97\<rparr> = Inr 99
   \<and> percent \<lparr>mappedBlocks = 97, blocksWritten = 97\<rparr>
       \<noteq> Inr (word_of_int (100 * uint (97 :: size_t) div uint (97 :: size_t)))"
  by code_simp

text \<open>
  C6, at the inputs it fails on. With 99 mapped blocks the report of the finished
  copy, \<open>blocksWritten = 99\<close>, has the percentage 99. With \<open>2 ^ 25\<close> mapped blocks
  the percentage is 100 already at \<open>blocksWritten = 2 ^ 25 - 1\<close>, a number that has
  no single-precision value of its own and is rounded to \<open>2 ^ 25\<close>. The first of the
  two is what a copy reports: a descriptor with 99 mapped blocks of 4096 bytes in one
  range is copied in one chunk, and the percentage of its only report is 99.
\<close>

theorem percent_100_does_not_mark_completion:
  "percent \<lparr>mappedBlocks = 99, blocksWritten = 99\<rparr> = Inr 99
   \<and> percent \<lparr>mappedBlocks = 33554432, blocksWritten = 33554431\<rparr> = Inr 100
   \<and> map_option (map_sum id (\<lambda>st. map percent (reported (trace st))))
        (copy_blocks
           \<lparr>imageSize = 405504, blockSize = 4096, blocksCount = 99, mappedBlocksCount = 99,
            checksumType = ''sha256'', fileChecksum = ''00'',
            blockMap = [\<lparr>offset = 0, blockCount = 99, checksum = ''9f''\<rparr>]\<rparr>
           True
           \<lparr>wicSize = 405504, wicPos = 0, wicFail = False, devPos = 0,
            progress = \<lparr>mappedBlocks = 99, blocksWritten = 0\<rparr>, trace = []\<rparr>)
       = Some (Inr [Inr 99])"
  by code_simp

text \<open>
  What does hold of the reports. Let the block size be at least 1 and at most the
  8 MiB of the buffer cap, \<open>mappedBlocksCount > 0\<close>, and let the ranges hold no more
  than \<open>mappedBlocksCount\<close> blocks together. Then the copy, run with a callback,
  returns; the percentages of its reports, in the order of the calls, never go down;
  each is defined and at most 100; and the percentage of a report with
  \<open>blocksWritten = mappedBlocks\<close> is 99 or 100.
\<close>

lemma reports_percent_non_decreasing:
  assumes "blockSize bmapFile \<noteq> 0" "blockSize bmapFile \<le> MAX_BUF_SIZE"
    and "mappedBlocksCount bmapFile \<noteq> 0"
    and "(\<Sum>r\<leftarrow>blockMap bmapFile. uint (blockCount r)) \<le> uint (mappedBlocksCount bmapFile)"
  shows "\<exists>st'. copy_blocks bmapFile True (opened_streams fileSize opened bmapFile) = Some (Inr st')
           \<and> sorted_wrt (\<lambda>p q. \<exists>a b. percent p = Inr a \<and> percent q = Inr b \<and> a \<le> b)
                (reported (trace st'))
           \<and> (\<forall>p \<in> set (reported (trace st')).
                 \<exists>a. percent p = Inr a \<and> a \<le> 100
                   \<and> (blocksWritten p = mappedBlocks p \<longrightarrow> a = 99 \<or> a = 100))"
proof -
  define m where "m = mappedBlocksCount bmapFile"
  define total where "total = (\<Sum>r\<leftarrow>blockMap bmapFile. uint (blockCount r))"
  define st0 where "st0 = opened_streams fileSize opened bmapFile"
  define maxBlocks where
    "maxBlocks = min (blockSize bmapFile * 1024 * 2) MAX_BUF_SIZE div blockSize bmapFile"
  have maxBlocks: "0 < maxBlocks"
    unfolding maxBlocks_def using assms(1,2) by (rule bufferMaxBlocks_positive)
  have start: "reports_ordered m st0" "blocksWritten (progress st0) = 0"
    by (simp_all add: reports_ordered_def st0_def opened_streams_def m_def)
  have "uint m < 2 ^ 64"
    using uint_lt2p [of m] by simp
  then have "uint (blocksWritten (progress st0)) + total < 2 ^ 64"
    using assms(4) by (simp add: start(2) total_def m_def)
  from copy_ranges_reports [OF maxBlocks start(1), of "blockMap bmapFile" "blockSize bmapFile" True]
    this
  obtain st' where st':
    "copy_ranges (blockSize bmapFile) maxBlocks True (blockMap bmapFile) st0 = Some st'"
    "reports_ordered m st'"
    "uint (blocksWritten (progress st')) = total"
    by (auto simp: total_def start(2))
  have run: "copy_blocks bmapFile True st0 = Some (Inr st')"
    using assms(1) st'(1) by (simp add: copy_blocks_def maxBlocks_def)
  have srt: "sorted (map (\<lambda>p. uint (blocksWritten p)) (reported (trace st')))"
    using st'(2) by (simp add: reports_ordered_def)
  have each: "mappedBlocks p = m \<and> blocksWritten p \<le> mappedBlocks p"
    if "p \<in> set (reported (trace st'))" for p
  proof -
    from that st'(2) have "mappedBlocks p = m"
      and "uint (blocksWritten p) \<le> uint (blocksWritten (progress st'))"
      by (simp_all add: reports_ordered_def list_all_iff)
    with st'(3) assms(4) show ?thesis
      by (simp add: word_le_def total_def m_def)
  qed
  have m0: "m \<noteq> 0"
    using assms(3) by (simp add: m_def)
  have "sorted_wrt (\<lambda>p q. uint (blocksWritten p) \<le> uint (blocksWritten q))
          (reported (trace st'))"
    using srt by (simp only: sorted_map)
  then have ordered:
    "sorted_wrt (\<lambda>p q. \<exists>a b. percent p = Inr a \<and> percent q = Inr b \<and> a \<le> b)
       (reported (trace st'))"
  proof (rule sorted_wrt_mono_rel [rotated])
    fix p q
    assume p: "p \<in> set (reported (trace st'))" and q: "q \<in> set (reported (trace st'))"
      and le: "uint (blocksWritten p) \<le> uint (blocksWritten q)"
    from each [OF p] each [OF q] m0 le
    have "mappedBlocks p \<noteq> 0" "mappedBlocks q = mappedBlocks p"
      "blocksWritten p \<le> blocksWritten q" "blocksWritten q \<le> mappedBlocks q"
      by (auto simp: word_le_def)
    then show "\<exists>a b. percent p = Inr a \<and> percent q = Inr b \<and> a \<le> b"
      by (rule percent_mono)
  qed
  have bounded: "\<exists>a. percent p = Inr a \<and> a \<le> 100
                   \<and> (blocksWritten p = mappedBlocks p \<longrightarrow> a = 99 \<or> a = 100)"
    if "p \<in> set (reported (trace st'))" for p
  proof -
    from each [OF that] m0 have p: "mappedBlocks p \<noteq> 0" "blocksWritten p \<le> mappedBlocks p"
      by auto
    from percent_close [OF p] obtain v where v: "percent p = Inr v" "uint v \<le> 100"
      "\<bar>uint v - 100 * uint (blocksWritten p) div uint (mappedBlocks p)\<bar> \<le> 1"
      by blast
    have "v \<le> 100"
      using v(2) by (simp add: word_le_def)
    moreover have "v = 99 \<or> v = 100" if "blocksWritten p = mappedBlocks p"
    proof -
      have "uint (mappedBlocks p) \<noteq> 0"
        using p(1) by (simp add: uint_0_iff)
      then have "100 * uint (blocksWritten p) div uint (mappedBlocks p) = 100"
        using that by simp
      with v(2,3) have "uint v = 99 \<or> uint v = 100"
        by auto
      then have "uint v = uint (99 :: 8 word) \<or> uint v = uint (100 :: 8 word)"
        by simp
      then show ?thesis
        by (simp only: word_uint_eq_iff [symmetric])
    qed
    ultimately show ?thesis
      using v(1) by blast
  qed
  from run ordered bounded show ?thesis
    unfolding st0_def by blast
qed

end
